theory Spec2Isabelle
  imports Main
begin

section \<open>Values handed over by the host\<close>

text \<open>
  The middleware of \<^verbatim>\<open>index.js\<close> reads three properties of the request
  (\<^verbatim>\<open>req.method\<close>, \<^verbatim>\<open>req.url\<close>, \<^verbatim>\<open>req.sessionID\<close>) and writes two of the response
  (\<^verbatim>\<open>res.statusCode\<close>, \<^verbatim>\<open>res.end(body)\<close>). The session identifier is whatever a session
  layer left on the request, so it may be \<^verbatim>\<open>undefined\<close> or \<^verbatim>\<open>null\<close>; string
  concatenation turns it into text the way JavaScript's \<^verbatim>\<open>+\<close> does.
\<close>

datatype jsval = JUndefined | JNull | JStr string

fun to_string :: "jsval \<Rightarrow> string" where
  "to_string JUndefined = ''undefined''"
| "to_string JNull = ''null''"
| "to_string (JStr s) = s"

record request =
  req_method :: string
  url :: string
  sessionID :: jsval

text \<open>A response: the status code and the bodies passed to \<^verbatim>\<open>res.end\<close>, oldest first.\<close>

record response =
  statusCode :: nat
  ended :: "string list"

record js_error =
  message :: string

subsection \<open>The parsed URL\<close>

record uri =
  pathname :: "string option"
  search :: "string option"
  hash :: "string option"

text \<open>A part of a URL that is empty stays unset (\<^verbatim>\<open>null\<close>).\<close>

definition unset_if_empty :: "string \<Rightarrow> string option" where
  "unset_if_empty s = (if s = [] then None else Some s)"

text \<open>
  Modelled from the spec: Node's built-in \<^verbatim>\<open>url.parse\<close> is not part of the repository.
  The spec asks for the pathname with the query stripped; the model cuts the fragment
  at the first \<^verbatim>\<open>#\<close>, then the query at the first \<^verbatim>\<open>?\<close>, and leaves a part that is
  empty unset (\<^verbatim>\<open>null\<close>), as the built-in does for a request target without scheme
  or host.
\<close>

definition url_parse :: "string \<Rightarrow> uri" where
  "url_parse u =
     (let rest = takeWhile (\<lambda>c. c \<noteq> CHR ''#'') u;
          h = dropWhile (\<lambda>c. c \<noteq> CHR ''#'') u;
          p = takeWhile (\<lambda>c. c \<noteq> CHR ''?'') rest;
          q = dropWhile (\<lambda>c. c \<noteq> CHR ''?'') rest
      in \<lparr>pathname = unset_if_empty p, search = unset_if_empty q, hash = unset_if_empty h\<rparr>)"

text \<open>\<^verbatim>\<open>'@' + uri.pathname\<close>: an unset pathname concatenates as the text \<^verbatim>\<open>null\<close>.\<close>

definition pathname_text :: "uri \<Rightarrow> string" where
  "pathname_text u = (case pathname u of None \<Rightarrow> ''null'' | Some p \<Rightarrow> p)"

subsection \<open>Lower-casing\<close>

text \<open>
  \<^verbatim>\<open>String.prototype.toLowerCase\<close> on the letters an HTTP method is made of: the
  upper-case ASCII letters move to lower case, every other character stays.
\<close>

definition lower_char :: "char \<Rightarrow> char" where
  "lower_char c =
     (case map_of (zip ''ABCDEFGHIJKLMNOPQRSTUVWXYZ'' ''abcdefghijklmnopqrstuvwxyz'') c of
        None \<Rightarrow> c
      | Some l \<Rightarrow> l)"

definition toLowerCase :: "string \<Rightarrow> string" where
  "toLowerCase s = map lower_char s"

section \<open>Pages and routers\<close>

type_synonym params = "(string \<times> string) list"

text \<open>
  The router of a page is the third-party \<^verbatim>\<open>Routable\<close> (or whatever object the page
  brought along as \<^verbatim>\<open>page.router\<close>): the middleware only calls \<^verbatim>\<open>test(uri)\<close> and
  \<^verbatim>\<open>exec(uri)\<close> on it, both with the parsed URL object.
\<close>

record router =
  test :: "uri \<Rightarrow> bool"
  exec :: "uri \<Rightarrow> params"

text \<open>
  A page constructor. \<open>pid\<close> stands for the identity of the function object;
  \<open>proto_method\<close> and \<open>proto_path\<close> are \<^verbatim>\<open>page.prototype.method\<close> and
  \<^verbatim>\<open>page.prototype.path\<close> (\<open>None\<close> when the property is not a string);
  \<open>page_router\<close> is \<^verbatim>\<open>page.router\<close>; \<open>instanceof_Page\<close> is the outcome of
  \<^verbatim>\<open>page instanceof exports.Page\<close>.
\<close>

record page =
  pid :: nat
  proto_method :: "string option"
  proto_path :: "string option"
  page_router :: "router option"
  instanceof_Page :: bool

text \<open>The handlers subscribed with \<^verbatim>\<open>page.on('error', ...)\<close>, with the request they are bound to.\<close>

datatype listener = Fivehundered request

text \<open>
  A page instance, \<^verbatim>\<open>new P({ req: req, res: res, params: params })\<close>. What the constructor
  does beyond taking its arguments belongs to the page and is not modelled.
\<close>

record page_instance =
  made_by :: page
  given_req :: request
  given_params :: params
  listeners :: "listener list"

definition new_page :: "page \<Rightarrow> request \<Rightarrow> params \<Rightarrow> page_instance" where
  "new_page P req ps = \<lparr>made_by = P, given_req = req, given_params = ps, listeners = []\<rparr>"

definition on_error :: "page_instance \<Rightarrow> listener \<Rightarrow> page_instance" where
  "on_error inst l = inst\<lparr>listeners := listeners inst @ [l]\<rparr>"

section \<open>The expiring map\<close>

text \<open>
  Modelled from the spec: the third-party \<^verbatim>\<open>Expirable\<close> is not part of the repository.
  Following the spec's Expiring Map, an entry is a value with the time it was last
  touched; \<open>set\<close> inserts or overwrites and resets the idle timer; \<open>get\<close> answers
  absent for a key never set or idle for at least the time to live, and purges such an
  entry on the way. Whether a successful \<open>get\<close> touches the entry is left open by the
  spec, so it is a flag of the map (\<open>touch\<close>). Times are milliseconds.
\<close>

record 'v entry =
  val :: 'v
  seen :: int

record 'v expirable =
  expiree :: int
  touch :: bool
  cache :: "string \<Rightarrow> 'v entry option"

text \<open>
  Modelled from the spec: the text \<^verbatim>\<open>'5 minutes'\<close> that \<open>attach\<close> passes to \<^verbatim>\<open>Expirable\<close>
  is the spec's idle window of five minutes, here in milliseconds.
\<close>

definition five_minutes :: int where
  "five_minutes = 5 * 60 * 1000"

text \<open>Modelled from the spec: \<^verbatim>\<open>new Expirable(ttl)\<close>, an empty map with its time to live.\<close>

definition Expirable :: "int \<Rightarrow> bool \<Rightarrow> 'v expirable" where
  "Expirable ttl t = \<lparr>expiree = ttl, touch = t, cache = (\<lambda>k. None)\<rparr>"

text \<open>
  Modelled from the spec: \<^verbatim>\<open>get(key)\<close>, the value or absent, and the map afterwards (an
  expired entry purged, a live one touched where the map touches on \<open>get\<close>).
\<close>

definition exp_get :: "'v expirable \<Rightarrow> int \<Rightarrow> string \<Rightarrow> 'v option \<times> 'v expirable" where
  "exp_get m now k =
     (case cache m k of
        None \<Rightarrow> (None, m)
      | Some e \<Rightarrow>
          if expiree m \<le> now - seen e
          then (None, m\<lparr>cache := (cache m)(k := None)\<rparr>)
          else (Some (val e),
                if touch m then m\<lparr>cache := (cache m)(k := Some (e\<lparr>seen := now\<rparr>))\<rparr> else m))"

text \<open>Modelled from the spec: \<^verbatim>\<open>set(key, value)\<close> inserts or overwrites, last touched now.\<close>

definition exp_set :: "'v expirable \<Rightarrow> int \<Rightarrow> string \<Rightarrow> 'v \<Rightarrow> 'v expirable" where
  "exp_set m now k v = m\<lparr>cache := (cache m)(k := Some \<lparr>val = v, seen = now\<rparr>)\<rparr>"

section \<open>attach\<close>

datatype error =
    MissingPages
  | InvalidPageType string
  | AlreadyInitialized
  | ModuleNotFound string
  | ReaddirFailed
  | InvalidPattern
  | TypeError

text \<open>
  What may stand in the \<^verbatim>\<open>pages\<close> array: a string (a module to \<^verbatim>\<open>require\<close>), a function,
  an object (with the outcome of \<^verbatim>\<open>instanceof exports.Page\<close>: an initialized page is an
  object for which it is true), or another value, given by its \<^verbatim>\<open>typeof\<close>.
\<close>

datatype supplied = Str string | Fun page | Obj bool | Other string

fun typeof :: "supplied \<Rightarrow> string" where
  "typeof (Str _) = ''string''"
| "typeof (Fun _) = ''function''"
| "typeof (Obj _) = ''object''"
| "typeof (Other t) = t"

text \<open>The \<^verbatim>\<open>pages\<close> option: an array, or anything else, which is taken for a directory.\<close>

datatype pages_option = PagesArray "supplied list" | PagesPath string

record options =
  opt_pages :: "pages_option option"
  opt_404 :: "page option"

text \<open>
  The collaborators \<open>attach\<close> calls and the repository does not hold:
  \<^verbatim>\<open>fs.readdirSync\<close>, \<^verbatim>\<open>path.resolve\<close>, \<^verbatim>\<open>require\<close> and the \<^verbatim>\<open>Routable\<close> constructor
  (\<open>None\<close> where they throw), and the touch policy of the expiring maps.
\<close>

record env =
  readdirSync :: "string \<Rightarrow> string list option"
  path_resolve :: "string \<Rightarrow> string \<Rightarrow> string"
  require :: "string \<Rightarrow> supplied option"
  Routable :: "string option \<Rightarrow> router option"
  touch_on_get :: bool

text \<open>\<^verbatim>\<open>if (typeof page === 'string') page = require(page)\<close>.\<close>

definition load :: "env \<Rightarrow> supplied \<Rightarrow> error + supplied" where
  "load e s =
     (case s of
        Str f \<Rightarrow> (case require e f of None \<Rightarrow> Inl (ModuleNotFound f) | Some v \<Rightarrow> Inr v)
      | _ \<Rightarrow> Inr s)"

text \<open>The callback of \<^verbatim>\<open>pages.map\<close>, for one entry.\<close>

definition map_page :: "env \<Rightarrow> supplied \<Rightarrow> error + page" where
  "map_page e s =
     (case load e s of
        Inl err \<Rightarrow> Inl err
      | Inr v \<Rightarrow>
          (case v of
             Fun p \<Rightarrow>
               if instanceof_Page p then Inl AlreadyInitialized
               else (case page_router p of
                       Some _ \<Rightarrow> Inr p
                     | None \<Rightarrow>
                         (case Routable e (proto_path p) of
                            None \<Rightarrow> Inl InvalidPattern
                          | Some r \<Rightarrow> Inr (p\<lparr>page_router := Some r\<rparr>)))
           | _ \<Rightarrow> Inl (InvalidPageType (typeof v))))"

text \<open>\<^verbatim>\<open>pages.map(...)\<close>: the entries in order, stopping at the first that throws.\<close>

fun map_pages :: "env \<Rightarrow> supplied list \<Rightarrow> error + page list" where
  "map_pages e [] = Inr []"
| "map_pages e (s # ss) =
     (case map_page e s of
        Inl err \<Rightarrow> Inl err
      | Inr p \<Rightarrow> (case map_pages e ss of Inl err \<Rightarrow> Inl err | Inr ps \<Rightarrow> Inr (p # ps)))"

text \<open>
  What the returned middleware closes over: the processed pages, the \<^verbatim>\<open>'404'\<close> option
  and the two expiring maps.
\<close>

record resolved =
  Page :: page
  params :: params

record dispatcher =
  pages :: "page list"
  NotFound :: "page option"
  routes :: "resolved expirable"
  instances :: "page_instance expirable"

text \<open>
  \<^verbatim>\<open>if (!Array.isArray(pages)) pages = readdirSync(pages).map(resolve)\<close>: a directory
  becomes the list of the resolved names of its files.
\<close>

definition list_pages :: "env \<Rightarrow> pages_option \<Rightarrow> error + supplied list" where
  "list_pages e po =
     (case po of
        PagesArray ss \<Rightarrow> Inr ss
      | PagesPath dir \<Rightarrow>
          (case readdirSync e dir of
             None \<Rightarrow> Inl ReaddirFailed
           | Some files \<Rightarrow> Inr (map (\<lambda>file. Str (path_resolve e dir file)) files)))"

text \<open>
  \<^verbatim>\<open>attach(server, options)\<close>. The engine it also constructs shares the instance map
  and takes no part in routing; it is left out.
\<close>

definition attach :: "env \<Rightarrow> options option \<Rightarrow> error + dispatcher" where
  "attach e options =
     (let opts = (case options of None \<Rightarrow> \<lparr>opt_pages = None, opt_404 = None\<rparr> | Some os \<Rightarrow> os) in
      case opt_pages opts of
        None \<Rightarrow> Inl MissingPages
      | Some po \<Rightarrow>
          (case list_pages e po of
             Inl err \<Rightarrow> Inl err
           | Inr ss \<Rightarrow>
               (case map_pages e ss of
                  Inl err \<Rightarrow> Inl err
                | Inr ps \<Rightarrow>
                    Inr \<lparr>pages = ps, NotFound = opt_404 opts,
                         routes = Expirable five_minutes (touch_on_get e),
                         instances = Expirable five_minutes (touch_on_get e)\<rparr>)))"

section \<open>The middleware\<close>

text \<open>
  What a run of the middleware does that can be seen from outside, in order: calls of
  a router's \<^verbatim>\<open>test\<close> and \<^verbatim>\<open>exec\<close> and of a page constructor (each with the \<open>pid\<close>
  of the page), \<^verbatim>\<open>routes.set\<close> and \<^verbatim>\<open>instances.set\<close> (each with the key), and the call
  of \<^verbatim>\<open>next\<close>.
\<close>

datatype event = Test nat | Exec nat | RoutesSet string | New nat | InstancesSet string | Next

datatype outcome = Dispatched string | Forwarded | Threw error

record result =
  outcome :: outcome
  after :: dispatcher
  res_after :: response
  events :: "event list"

text \<open>\<^verbatim>\<open>fivehundered(req, res, err)\<close>: the status becomes 500 and the response ends with the message.\<close>

definition fivehundered :: "request \<Rightarrow> response \<Rightarrow> js_error \<Rightarrow> response" where
  "fivehundered req res err = res\<lparr>statusCode := 500, ended := ended res @ [message err]\<rparr>"

text \<open>
  \<^verbatim>\<open>fourohfour(req, res)\<close>: the status becomes 404; with a \<^verbatim>\<open>NotFound\<close> page that page is
  constructed with empty params and given the error handler, without it the response
  ends with a fixed body. The result is the response, the page made and the events.
\<close>

definition fourohfour ::
  "page option \<Rightarrow> request \<Rightarrow> response \<Rightarrow> response \<times> page_instance option \<times> event list" where
  "fourohfour nf req res =
     (let res1 = res\<lparr>statusCode := 404\<rparr> in
      case nf of
        Some N \<Rightarrow> (res1, Some (on_error (new_page N req []) (Fivehundered req)), [New (pid N)])
      | None \<Rightarrow> (res1\<lparr>ended := ended res1 @ [''404, Not found'']\<rparr>, None, []))"

text \<open>
  The callback of \<^verbatim>\<open>pages.filter\<close>: \<^verbatim>\<open>&&\<close> calls \<^verbatim>\<open>page.router.test(uri)\<close> only when the
  methods agree. Lower-casing a method that is not a string, or calling \<^verbatim>\<open>test\<close> on a
  missing router, throws.
\<close>

definition filter_cb :: "request \<Rightarrow> uri \<Rightarrow> page \<Rightarrow> (error + bool) \<times> event list" where
  "filter_cb req u p =
     (case proto_method p of
        None \<Rightarrow> (Inl TypeError, [])
      | Some m \<Rightarrow>
          if toLowerCase m = toLowerCase (req_method req)
          then (case page_router p of
                  None \<Rightarrow> (Inl TypeError, [])
                | Some r \<Rightarrow> (Inr (test r u), [Test (pid p)]))
          else (Inr False, []))"

text \<open>\<^verbatim>\<open>pages.filter(...)\<close>: the callback on every page, in order, up to the first throw.\<close>

fun pages_filter :: "request \<Rightarrow> uri \<Rightarrow> page list \<Rightarrow> (error + page list) \<times> event list" where
  "pages_filter req u [] = (Inr [], [])"
| "pages_filter req u (p # ps) =
     (case filter_cb req u p of
        (Inl err, ev) \<Rightarrow> (Inl err, ev)
      | (Inr b, ev) \<Rightarrow>
          (case pages_filter req u ps of
             (Inl err, ev') \<Rightarrow> (Inl err, ev @ ev')
           | (Inr keep, ev') \<Rightarrow> (Inr (if b then p # keep else keep), ev @ ev')))"

definition route_id :: "request \<Rightarrow> string" where
  "route_id req = req_method req @ ''@'' @ pathname_text (url_parse (url req))"

definition instance_key :: "request \<Rightarrow> string" where
  "instance_key req = to_string (sessionID req) @ '':'' @ route_id req"

text \<open>
  The last three statements of both branches: construct the page, subscribe the error
  handler, store the instance under the session and the route id.
\<close>

definition dispatch :: "dispatcher \<Rightarrow> int \<Rightarrow> request \<Rightarrow> response \<Rightarrow> resolved \<Rightarrow> event list \<Rightarrow> result" where
  "dispatch d now req res c ev =
     (let inst = on_error (new_page (Page c) req (params c)) (Fivehundered req);
          key = instance_key req
      in \<lparr>outcome = Dispatched key,
          after = d\<lparr>instances := exp_set (instances d) now key inst\<rparr>,
          res_after = res,
          events = ev @ [New (pid (Page c)), InstancesSet key]\<rparr>)"

text \<open>\<^verbatim>\<open>middlware(req, res, next)\<close>, at the time \<open>now\<close>.\<close>

definition middlware :: "dispatcher \<Rightarrow> int \<Rightarrow> request \<Rightarrow> response \<Rightarrow> result" where
  "middlware d now req res =
     (let u = url_parse (url req);
          id = route_id req;
          (cached, routes1) = exp_get (routes d) now id;
          d1 = d\<lparr>routes := routes1\<rparr>
      in case cached of
           Some c \<Rightarrow> dispatch d1 now req res c []
         | None \<Rightarrow>
             (case pages_filter req u (pages d) of
                (Inl err, ev) \<Rightarrow> \<lparr>outcome = Threw err, after = d1, res_after = res, events = ev\<rparr>
              | (Inr [], ev) \<Rightarrow>
                  \<lparr>outcome = Forwarded, after = d1, res_after = res, events = ev @ [Next]\<rparr>
              | (Inr (P # _), ev) \<Rightarrow>
                  (case page_router P of
                     None \<Rightarrow> \<lparr>outcome = Threw TypeError, after = d1, res_after = res, events = ev\<rparr>
                   | Some r \<Rightarrow>
                       (let c = \<lparr>Page = P, params = exec r u\<rparr>
                        in dispatch (d1\<lparr>routes := exp_set routes1 now id c\<rparr>) now req res c
                             (ev @ [Exec (pid P), RoutesSet id])))))"

text \<open>
  \<^verbatim>\<open>page.emit('error', err)\<close>, the page's error-reporting channel: every subscribed
  handler runs, in the order of subscription, on the response of the page's request.
\<close>

definition emit_error :: "page_instance \<Rightarrow> js_error \<Rightarrow> response \<Rightarrow> response" where
  "emit_error inst err res =
     fold (\<lambda>l r. case l of Fivehundered req \<Rightarrow> fivehundered req r err) (listeners inst) res"

text \<open>Several reports from one instance, one after the other.\<close>

definition emit_errors :: "page_instance \<Rightarrow> js_error list \<Rightarrow> response \<Rightarrow> response" where
  "emit_errors inst errs res = fold (emit_error inst) errs res"

section \<open>Notions the properties are stated with\<close>

text \<open>The request's method and the page's agree, letter case apart.\<close>

definition method_agrees :: "request \<Rightarrow> page \<Rightarrow> bool" where
  "method_agrees req p =
     (case proto_method p of
        None \<Rightarrow> False
      | Some m \<Rightarrow> toLowerCase m = toLowerCase (req_method req))"

text \<open>A descriptor matches: the methods agree and the page's router tests true.\<close>

definition matches :: "request \<Rightarrow> uri \<Rightarrow> page \<Rightarrow> bool" where
  "matches req u p =
     (method_agrees req p \<and> (case page_router p of None \<Rightarrow> False | Some r \<Rightarrow> test r u))"

text \<open>A page the scan can evaluate without throwing: it has a method and a router.\<close>

definition well_formed :: "page \<Rightarrow> bool" where
  "well_formed p = (proto_method p \<noteq> None \<and> page_router p \<noteq> None)"

text \<open>The calls of a router among the events.\<close>

fun is_matcher_call :: "event \<Rightarrow> bool" where
  "is_matcher_call (Test _) = True"
| "is_matcher_call (Exec _) = True"
| "is_matcher_call _ = False"

text \<open>The calls of a page constructor among the events.\<close>

fun is_New :: "event \<Rightarrow> bool" where
  "is_New (New _) = True"
| "is_New _ = False"

text \<open>What \<open>attach\<close> refuses in an entry once loaded.\<close>

definition not_a_constructor :: "supplied \<Rightarrow> bool" where
  "not_a_constructor v = (case v of Fun _ \<Rightarrow> False | _ \<Rightarrow> True)"

definition initialized_page :: "supplied \<Rightarrow> bool" where
  "initialized_page v = (case v of Fun p \<Rightarrow> instanceof_Page p | Obj b \<Rightarrow> b | _ \<Rightarrow> False)"

section \<open>Example data\<close>

text \<open>
  A router that accepts one pathname, the environment of an \<open>attach\<close> whose
  \<^verbatim>\<open>Routable\<close> builds such routers, pages before and after \<open>attach\<close> gave them a
  router, and a dispatcher with three routes on the same path.
\<close>

definition exact_path :: "string \<Rightarrow> router" where
  "exact_path p = \<lparr>test = (\<lambda>u. pathname u = Some p), exec = (\<lambda>u. [(''path'', p)])\<rparr>"

definition ex_env :: env where
  "ex_env =
     \<lparr>readdirSync = (\<lambda>dir. None),
      path_resolve = (\<lambda>dir file. dir @ ''/'' @ file),
      require = (\<lambda>f. None),
      Routable = (\<lambda>p. case p of None \<Rightarrow> None | Some s \<Rightarrow> Some (exact_path s)),
      touch_on_get = True\<rparr>"

definition ex_page :: "nat \<Rightarrow> string \<Rightarrow> string \<Rightarrow> page" where
  "ex_page i m p =
     \<lparr>pid = i, proto_method = Some m, proto_path = Some p, page_router = None,
      instanceof_Page = False\<rparr>"

definition ex_routed :: "nat \<Rightarrow> string \<Rightarrow> string \<Rightarrow> page" where
  "ex_routed i m p = (ex_page i m p)\<lparr>page_router := Some (exact_path p)\<rparr>"

definition ex_dispatcher :: dispatcher where
  "ex_dispatcher =
     \<lparr>pages = [ex_routed 0 ''GET'' ''/a'', ex_routed 1 ''get'' ''/a'', ex_routed 2 ''POST'' ''/a''],
      NotFound = None,
      routes = Expirable five_minutes True,
      instances = Expirable five_minutes True\<rparr>"

definition ex_request :: "string \<Rightarrow> string \<Rightarrow> jsval \<Rightarrow> request" where
  "ex_request m u s = \<lparr>req_method = m, url = u, sessionID = s\<rparr>"

definition ex_response :: response where
  "ex_response = \<lparr>statusCode = 200, ended = []\<rparr>"

text \<open>
  A page that brings its own router, one that looks at the query of the parsed URL it
  is handed, and the dispatcher \<open>attach\<close> makes of it.
\<close>

definition query_router :: "string \<Rightarrow> router" where
  "query_router q = \<lparr>test = (\<lambda>u. search u = Some q), exec = (\<lambda>u. [(''search'', q)])\<rparr>"

definition ex_query_dispatcher :: dispatcher where
  "ex_query_dispatcher =
     \<lparr>pages = [(ex_page 7 ''GET'' ''/a'')\<lparr>page_router := Some (query_router ''?x=1'')\<rparr>],
      NotFound = None,
      routes = Expirable five_minutes True,
      instances = Expirable five_minutes True\<rparr>"

lemmas ex_defs =
  exact_path_def ex_env_def ex_page_def ex_routed_def ex_dispatcher_def ex_request_def
  ex_response_def query_router_def ex_query_dispatcher_def

lemmas run_defs =
  middlware_def dispatch_def route_id_def instance_key_def url_parse_def unset_if_empty_def
  pathname_text_def exp_get_def exp_set_def Expirable_def five_minutes_def filter_cb_def
  toLowerCase_def lower_char_def new_page_def on_error_def Let_def


section \<open>The expiring map and the scan\<close>

lemma exp_get_set_same:
  "now' - now < expiree m \<Longrightarrow> fst (exp_get (exp_set m now k v) now' k) = Some v"
  by (simp add: exp_get_def exp_set_def)

lemma exp_get_set_other:
  "k' \<noteq> k \<Longrightarrow> fst (exp_get (exp_set m now k v) now' k') = fst (exp_get m now' k')"
  by (simp add: exp_get_def exp_set_def split: option.splits)

lemma exp_get_expired:
  "cache m k = Some en \<Longrightarrow> expiree m \<le> now - seen en \<Longrightarrow>
   fst (exp_get m now k) = None \<and> cache (snd (exp_get m now k)) k = None"
  by (simp add: exp_get_def)

lemma exp_get_expiree [simp]: "expiree (snd (exp_get m now k)) = expiree m"
  by (simp add: exp_get_def split: option.splits)

lemma exp_set_expiree [simp]: "expiree (exp_set m now k v) = expiree m"
  by (simp add: exp_set_def)

lemma exp_get_hit_cache:
  "fst (exp_get m now k) = Some v \<Longrightarrow>
   \<exists>en. cache (snd (exp_get m now k)) k = Some en \<and> val en = v"
  by (auto simp add: exp_get_def split: option.splits if_splits)

lemma exp_get_miss_cache:
  "fst (exp_get m now k) = None \<Longrightarrow> cache (snd (exp_get m now k)) k = None"
  by (auto simp add: exp_get_def split: option.splits if_splits)

lemma exp_get_other_cache:
  "k' \<noteq> k \<Longrightarrow> cache (snd (exp_get m now k)) k' = cache m k'"
  by (auto simp add: exp_get_def split: option.splits if_splits)

lemma pages_filter_wf:
  "\<forall>p\<in>set ps. well_formed p \<Longrightarrow>
   pages_filter req u ps =
     (Inr (filter (matches req u) ps), map (\<lambda>p. Test (pid p)) (filter (method_agrees req) ps))"
  by (induction ps)
     (auto simp add: filter_cb_def matches_def method_agrees_def well_formed_def split: option.splits)

lemma pages_filter_events:
  "pages_filter req u ps = (Inr keep, ev) \<Longrightarrow>
   keep = filter (matches req u) ps \<and> ev = map (\<lambda>p. Test (pid p)) (filter (method_agrees req) ps)"
  by (induction ps arbitrary: keep ev)
     (auto simp add: filter_cb_def matches_def method_agrees_def split: option.splits if_splits prod.splits sum.splits)

lemma find_filter_hd:
  "find P xs = (case filter P xs of [] \<Rightarrow> None | x # _ \<Rightarrow> Some x)"
  by (induction xs) auto


lemma middlware_hit:
  "fst (exp_get (routes d) now (route_id req)) = Some c \<Longrightarrow>
   middlware d now req res =
     dispatch (d\<lparr>routes := snd (exp_get (routes d) now (route_id req))\<rparr>) now req res c []"
  by (cases "exp_get (routes d) now (route_id req)") (simp add: middlware_def Let_def)

lemma middlware_miss_nomatch:
  "fst (exp_get (routes d) now (route_id req)) = None \<Longrightarrow>
   pages_filter req (url_parse (url req)) (pages d) = (Inr [], ev) \<Longrightarrow>
   middlware d now req res =
     \<lparr>outcome = Forwarded, after = d\<lparr>routes := snd (exp_get (routes d) now (route_id req))\<rparr>,
      res_after = res, events = ev @ [Next]\<rparr>"
  by (cases "exp_get (routes d) now (route_id req)") (simp add: middlware_def Let_def)

lemma middlware_miss_match:
  "fst (exp_get (routes d) now (route_id req)) = None \<Longrightarrow>
   pages_filter req (url_parse (url req)) (pages d) = (Inr (P # rest), ev) \<Longrightarrow>
   page_router P = Some r \<Longrightarrow>
   middlware d now req res =
     dispatch
       (d\<lparr>routes := exp_set (snd (exp_get (routes d) now (route_id req))) now (route_id req)
                      \<lparr>Page = P, params = exec r (url_parse (url req))\<rparr>\<rparr>)
       now req res \<lparr>Page = P, params = exec r (url_parse (url req))\<rparr>
       (ev @ [Exec (pid P), RoutesSet (route_id req)])"
  by (cases "exp_get (routes d) now (route_id req)") (simp add: middlware_def Let_def)

lemma middlware_miss_throw:
  "fst (exp_get (routes d) now (route_id req)) = None \<Longrightarrow>
   pages_filter req (url_parse (url req)) (pages d) = (Inl err, ev) \<Longrightarrow>
   middlware d now req res =
     \<lparr>outcome = Threw err, after = d\<lparr>routes := snd (exp_get (routes d) now (route_id req))\<rparr>,
      res_after = res, events = ev\<rparr>"
  by (cases "exp_get (routes d) now (route_id req)") (simp add: middlware_def Let_def)

lemma kept_has_router:
  "pages_filter req u ps = (Inr keep, ev) \<Longrightarrow> P \<in> set keep \<Longrightarrow>
   \<exists>r. page_router P = Some r \<and> test r u"
  by (auto dest!: pages_filter_events simp add: matches_def split: option.splits)

lemma route_id_cong:
  "req_method r2 = req_method r1 \<Longrightarrow>
   pathname (url_parse (url r2)) = pathname (url_parse (url r1)) \<Longrightarrow> route_id r2 = route_id r1"
  by (simp add: route_id_def pathname_text_def)

lemma count_tests_distinct:
  "distinct (map pid ps) \<Longrightarrow> P \<in> set ps \<Longrightarrow> method_agrees req P \<Longrightarrow>
   count_list (map (\<lambda>p. Test (pid p)) (filter (method_agrees req) ps)) (Test (pid P)) = 1"
  by (induction ps) (auto simp add: image_iff)



lemma hit_run:
  assumes "fst (exp_get (routes d) now (route_id req)) = Some c"
  shows "events (middlware d now req res) = [New (pid (Page c)), InstancesSet (instance_key req)]"
    and "outcome (middlware d now req res) = Dispatched (instance_key req)"
    and "cache (instances (after (middlware d now req res))) (instance_key req) =
           Some \<lparr>val = on_error (new_page (Page c) req (params c)) (Fivehundered req), seen = now\<rparr>"
    and "res_after (middlware d now req res) = res"
  using assms by (simp_all add: middlware_hit dispatch_def Let_def exp_set_def)

lemma match_run:
  assumes miss: "fst (exp_get (routes d) now (route_id req)) = None"
    and scan: "pages_filter req (url_parse (url req)) (pages d) = (Inr (P # rest), tests)"
    and r: "page_router P = Some r"
  shows "events (middlware d now req res) =
           tests @ [Exec (pid P), RoutesSet (route_id req), New (pid P), InstancesSet (instance_key req)]"
    and "outcome (middlware d now req res) = Dispatched (instance_key req)"
    and "cache (routes (after (middlware d now req res))) (route_id req) =
           Some \<lparr>val = \<lparr>Page = P, params = exec r (url_parse (url req))\<rparr>, seen = now\<rparr>"
    and "cache (instances (after (middlware d now req res))) (instance_key req) =
           Some \<lparr>val = on_error (new_page P req (exec r (url_parse (url req)))) (Fivehundered req),
                 seen = now\<rparr>"
    and "expiree (routes (after (middlware d now req res))) = expiree (routes d)"
    and "res_after (middlware d now req res) = res"
  using assms by (simp_all add: middlware_miss_match dispatch_def Let_def exp_set_def)

lemma remembered_lookup:
  assumes c: "cache m k = Some \<lparr>val = v, seen = now\<rparr>" and t: "now2 - now < expiree m"
  shows "fst (exp_get m now2 k) = Some v"
  using assms by (simp add: exp_get_def)

section \<open>The route cache\<close>

text \<open>
  C1. A request whose route id is in the route cache (and alive) is dispatched from
  the cached constructor and the cached params: the only events are the construction
  of that page and the storing of the instance, so no page is scanned and no router is
  called. On a scan that finds a match (the filter keeps \<open>P\<close> first), the resolved
  route is stored under the route id before the page is constructed (\<open>RoutesSet\<close> comes
  before \<open>New\<close>), so a second request with the same method and pathname, less than
  the time to live later, is dispatched from the cache with the params of the first
  run: the router calls of both runs together are those of the first (the tests of the
  scan and one \<open>exec\<close>), and where the pages are distinct constructors the router of
  \<open>P\<close> is tested exactly once.
\<close>

theorem route_cache_hit_skips_scan:
  "(fst (exp_get (routes d) now (route_id req)) = Some c \<longrightarrow>
      events (middlware d now req res) = [New (pid (Page c)), InstancesSet (instance_key req)] \<and>
      outcome (middlware d now req res) = Dispatched (instance_key req) \<and>
      cache (instances (after (middlware d now req res))) (instance_key req) =
        Some \<lparr>val = on_error (new_page (Page c) req (params c)) (Fivehundered req), seen = now\<rparr>)
   \<and>
   (fst (exp_get (routes d) now (route_id req)) = None \<and>
    pages_filter req (url_parse (url req)) (pages d) = (Inr (P # rest), tests) \<and>
    req_method req2 = req_method req \<and>
    pathname (url_parse (url req2)) = pathname (url_parse (url req)) \<and>
    now2 - now < expiree (routes d) \<longrightarrow>
      (\<exists>r. page_router P = Some r \<and>
        events (middlware d now req res) =
          tests @ [Exec (pid P), RoutesSet (route_id req), New (pid P),
                   InstancesSet (instance_key req)] \<and>
        events (middlware (after (middlware d now req res)) now2 req2 res2) =
          [New (pid P), InstancesSet (instance_key req2)] \<and>
        cache (instances (after (middlware (after (middlware d now req res)) now2 req2 res2)))
            (instance_key req2) =
          Some \<lparr>val = on_error (new_page P req2 (exec r (url_parse (url req)))) (Fivehundered req2),
                seen = now2\<rparr>) \<and>
      filter is_matcher_call
          (events (middlware d now req res) @
           events (middlware (after (middlware d now req res)) now2 req2 res2)) =
        tests @ [Exec (pid P)] \<and>
      (distinct (map pid (pages d)) \<longrightarrow>
        count_list
          (events (middlware d now req res) @
           events (middlware (after (middlware d now req res)) now2 req2 res2))
          (Test (pid P)) = 1))"
proof (intro conjI impI)
  assume "fst (exp_get (routes d) now (route_id req)) = Some c"
  note h = hit_run [OF this]
  show "events (middlware d now req res) = [New (pid (Page c)), InstancesSet (instance_key req)]"
    by (rule h)
  show "outcome (middlware d now req res) = Dispatched (instance_key req)"
    by (rule h)
  show "cache (instances (after (middlware d now req res))) (instance_key req) =
        Some \<lparr>val = on_error (new_page (Page c) req (params c)) (Fivehundered req), seen = now\<rparr>"
    by (rule h)
next
  assume a: "fst (exp_get (routes d) now (route_id req)) = None \<and>
    pages_filter req (url_parse (url req)) (pages d) = (Inr (P # rest), tests) \<and>
    req_method req2 = req_method req \<and>
    pathname (url_parse (url req2)) = pathname (url_parse (url req)) \<and>
    now2 - now < expiree (routes d)"
  then have miss: "fst (exp_get (routes d) now (route_id req)) = None"
    and scan: "pages_filter req (url_parse (url req)) (pages d) = (Inr (P # rest), tests)"
    and ttl: "now2 - now < expiree (routes d)"
    by simp_all
  from a have id2: "route_id req2 = route_id req"
    by (intro route_id_cong) simp_all
  from kept_has_router [OF scan, of P] obtain r where r: "page_router P = Some r"
    by auto
  note m = match_run [OF miss scan r, of res]
  let ?d1 = "after (middlware d now req res)"
  have "fst (exp_get (routes ?d1) now2 (route_id req2)) =
          Some \<lparr>Page = P, params = exec r (url_parse (url req))\<rparr>"
    unfolding id2 using m(3) ttl by (intro remembered_lookup) (simp_all add: m(5))
  note h = hit_run [OF this, of res2]
  have tests: "tests = map (\<lambda>p. Test (pid p)) (filter (method_agrees req) (pages d))"
    and keep: "P # rest = filter (matches req (url_parse (url req))) (pages d)"
    using pages_filter_events [OF scan] by simp_all
  have ev1: "events (middlware d now req res) =
          tests @ [Exec (pid P), RoutesSet (route_id req), New (pid P),
                   InstancesSet (instance_key req)]"
    by (rule m)
  have ev2: "events (middlware ?d1 now2 req2 res2) = [New (pid P), InstancesSet (instance_key req2)]"
    using h(1) by simp
  have inst2: "cache (instances (after (middlware ?d1 now2 req2 res2))) (instance_key req2) =
          Some \<lparr>val = on_error (new_page P req2 (exec r (url_parse (url req)))) (Fivehundered req2),
                seen = now2\<rparr>"
    using h(3) by simp
  show "\<exists>r. page_router P = Some r \<and>
        events (middlware d now req res) =
          tests @ [Exec (pid P), RoutesSet (route_id req), New (pid P),
                   InstancesSet (instance_key req)] \<and>
        events (middlware ?d1 now2 req2 res2) =
          [New (pid P), InstancesSet (instance_key req2)] \<and>
        cache (instances (after (middlware ?d1 now2 req2 res2)))
            (instance_key req2) =
          Some \<lparr>val = on_error (new_page P req2 (exec r (url_parse (url req)))) (Fivehundered req2),
                seen = now2\<rparr>"
    using r ev1 ev2 inst2 by blast
  have only_tests: "filter is_matcher_call tests = tests"
    unfolding tests by (induction "pages d") (simp_all add: filter_map comp_def)
  show "filter is_matcher_call (events (middlware d now req res) @ events (middlware ?d1 now2 req2 res2)) =
        tests @ [Exec (pid P)]"
    by (simp add: ev1 ev2 only_tests)
  show "count_list (events (middlware d now req res) @ events (middlware ?d1 now2 req2 res2))
          (Test (pid P)) = 1" if dist: "distinct (map pid (pages d))"
  proof -
    have "P \<in> set (filter (matches req (url_parse (url req))) (pages d))"
      using keep [symmetric] by simp
    then have "P \<in> set (pages d)" and "method_agrees req P"
      by (simp_all add: matches_def)
    from count_tests_distinct [OF dist this]
    show ?thesis by (simp add: ev1 ev2 tests)
  qed
qed


theorem route_cache_hit_skips_scan_witness:
  "fst (exp_get (routes ex_dispatcher) 0 (route_id (ex_request ''GET'' ''/a?x=1'' JUndefined))) = None \<and>
   pages_filter (ex_request ''GET'' ''/a?x=1'' JUndefined) (url_parse ''/a?x=1'') (pages ex_dispatcher) =
     (Inr [ex_routed 0 ''GET'' ''/a'', ex_routed 1 ''get'' ''/a''], [Test 0, Test 1]) \<and>
   distinct (map pid (pages ex_dispatcher)) \<and>
   events (middlware ex_dispatcher 0 (ex_request ''GET'' ''/a?x=1'' JUndefined) ex_response) =
     [Test 0, Test 1, Exec 0, RoutesSet ''GET@/a'', New 0, InstancesSet ''undefined:GET@/a''] \<and>
   events (middlware (after (middlware ex_dispatcher 0 (ex_request ''GET'' ''/a?x=1'' JUndefined) ex_response))
             1000 (ex_request ''GET'' ''/a?y=2'' (JStr ''s1'')) ex_response) =
     [New 0, InstancesSet ''s1:GET@/a''] \<and>
   count_list
     (events (middlware ex_dispatcher 0 (ex_request ''GET'' ''/a?x=1'' JUndefined) ex_response) @
      events (middlware (after (middlware ex_dispatcher 0 (ex_request ''GET'' ''/a?x=1'' JUndefined) ex_response))
                1000 (ex_request ''GET'' ''/a?y=2'' (JStr ''s1'')) ex_response))
     (Test 0) = 1"
  using route_cache_hit_skips_scan
    [of ex_dispatcher 0 "ex_request ''GET'' ''/a?x=1'' JUndefined" undefined ex_response
        "ex_routed 0 ''GET'' ''/a''" "[ex_routed 1 ''get'' ''/a'']" "[Test 0, Test 1]"
        "ex_request ''GET'' ''/a?y=2'' (JStr ''s1'')" 1000 ex_response]
  by (simp add: run_defs ex_defs)

lemma tests_only:
  "filter is_matcher_call (map (\<lambda>p. Test (pid p)) ps) = map (\<lambda>p. Test (pid p)) ps"
  by (induction ps) simp_all

lemma nomatch_run:
  assumes miss: "fst (exp_get (routes d) now (route_id req)) = None"
    and scan: "pages_filter req (url_parse (url req)) (pages d) = (Inr [], tests)"
  shows "events (middlware d now req res) = tests @ [Next]"
    and "outcome (middlware d now req res) = Forwarded"
    and "res_after (middlware d now req res) = res"
    and "instances (after (middlware d now req res)) = instances d"
    and "cache (routes (after (middlware d now req res))) (route_id req) = None"
  using assms by (simp_all add: middlware_miss_nomatch exp_get_miss_cache)

section \<open>The scan\<close>

text \<open>
  C2, as the code has it. On a miss of the route cache, over pages that have a method
  and a router, the filter keeps exactly the pages that match (the methods agree with
  letter case set aside, and the router tests true), in the order of registration, and
  the first of them is the one dispatched, stored in the route cache and constructed;
  with no match the request is forwarded. The filter runs over the whole list: the
  router of every page whose method agrees is tested, also of the pages behind the
  first match, and \<open>exec\<close> is called once on the page chosen.
\<close>

theorem scan_first_match_wins:
  assumes miss: "fst (exp_get (routes d) now (route_id req)) = None"
    and wf: "\<forall>p\<in>set (pages d). well_formed p"
  shows
    "pages_filter req (url_parse (url req)) (pages d) =
       (Inr (filter (matches req (url_parse (url req))) (pages d)),
        map (\<lambda>p. Test (pid p)) (filter (method_agrees req) (pages d))) \<and>
     (case find (matches req (url_parse (url req))) (pages d) of
        None \<Rightarrow>
          outcome (middlware d now req res) = Forwarded \<and>
          filter is_matcher_call (events (middlware d now req res)) =
            map (\<lambda>p. Test (pid p)) (filter (method_agrees req) (pages d))
      | Some P \<Rightarrow>
          outcome (middlware d now req res) = Dispatched (instance_key req) \<and>
          (\<exists>r. page_router P = Some r \<and>
             cache (routes (after (middlware d now req res))) (route_id req) =
               Some \<lparr>val = \<lparr>Page = P, params = exec r (url_parse (url req))\<rparr>, seen = now\<rparr> \<and>
             cache (instances (after (middlware d now req res))) (instance_key req) =
               Some \<lparr>val = on_error (new_page P req (exec r (url_parse (url req)))) (Fivehundered req),
                     seen = now\<rparr>) \<and>
          filter is_matcher_call (events (middlware d now req res)) =
            map (\<lambda>p. Test (pid p)) (filter (method_agrees req) (pages d)) @ [Exec (pid P)])"
proof -
  let ?u = "url_parse (url req)"
  let ?tests = "map (\<lambda>p. Test (pid p)) (filter (method_agrees req) (pages d))"
  have scan: "pages_filter req ?u (pages d) = (Inr (filter (matches req ?u) (pages d)), ?tests)"
    using wf by (rule pages_filter_wf)
  show ?thesis
  proof (cases "filter (matches req ?u) (pages d)")
    case Nil
    then have f: "find (matches req ?u) (pages d) = None"
      by (simp add: find_filter_hd)
    from scan Nil have "pages_filter req ?u (pages d) = (Inr [], ?tests)"
      by simp
    note n = nomatch_run [OF miss this, of res]
    show ?thesis
      using scan by (simp add: f n tests_only)
  next
    case (Cons P rest)
    then have f: "find (matches req ?u) (pages d) = Some P"
      by (simp add: find_filter_hd)
    from scan Cons have scanP: "pages_filter req ?u (pages d) = (Inr (P # rest), ?tests)"
      by simp
    from kept_has_router [OF scanP, of P] obtain r where r: "page_router P = Some r"
      by auto
    note m = match_run [OF miss scanP r, of res]
    show ?thesis
      using scan by (simp add: f m r tests_only)
  qed
qed

theorem scan_first_match_wins_witness:
  "fst (exp_get (routes ex_dispatcher) 0 (route_id (ex_request ''GET'' ''/a'' JNull))) = None \<and>
   list_all well_formed (pages ex_dispatcher) \<and>
   find (matches (ex_request ''GET'' ''/a'' JNull) (url_parse ''/a'')) (pages ex_dispatcher) =
     Some (ex_routed 0 ''GET'' ''/a'') \<and>
   outcome (middlware ex_dispatcher 0 (ex_request ''GET'' ''/a'' JNull) ex_response) =
     Dispatched ''null:GET@/a'' \<and>
   filter is_matcher_call (events (middlware ex_dispatcher 0 (ex_request ''GET'' ''/a'' JNull) ex_response)) =
     [Test 0, Test 1, Exec 0]"
  using scan_first_match_wins [of ex_dispatcher 0 "ex_request ''GET'' ''/a'' JNull" ex_response]
  by (simp add: run_defs ex_defs matches_def method_agrees_def well_formed_def)

text \<open>
  C2 as stated fails where it says the scan stops at the first match: the first page
  matches, and the router of the second is tested all the same.
\<close>

theorem scan_short_circuit_counterexample:
  "matches (ex_request ''GET'' ''/a'' JNull) (url_parse ''/a'') (ex_routed 0 ''GET'' ''/a'') \<and>
   pages ex_dispatcher =
     [ex_routed 0 ''GET'' ''/a'', ex_routed 1 ''get'' ''/a'', ex_routed 2 ''POST'' ''/a''] \<and>
   events (middlware ex_dispatcher 0 (ex_request ''GET'' ''/a'' JNull) ex_response) =
     [Test 0, Test 1, Exec 0, RoutesSet ''GET@/a'', New 0, InstancesSet ''null:GET@/a'']"
  by (simp add: run_defs ex_defs matches_def method_agrees_def)


section \<open>What the returned middleware was made from\<close>

lemma ex_attach:
  "attach ex_env
     (Some \<lparr>opt_pages = Some (PagesArray [Fun (ex_page 0 ''GET'' ''/a''), Fun (ex_page 1 ''get'' ''/a''),
                                          Fun (ex_page 2 ''POST'' ''/a'')]),
            opt_404 = None\<rparr>) = Inr ex_dispatcher"
  by (simp add: attach_def list_pages_def map_page_def load_def ex_defs)

lemma ex_query_attach:
  "attach ex_env
     (Some \<lparr>opt_pages = Some (PagesArray
              [Fun ((ex_page 7 ''GET'' ''/a'')\<lparr>page_router := Some (query_router ''?x=1'')\<rparr>)]),
            opt_404 = None\<rparr>) = Inr ex_query_dispatcher"
  by (simp add: attach_def list_pages_def map_page_def load_def ex_defs)

section \<open>Forwarding\<close>

lemma middlware_res_after: "res_after (middlware d now req res) = res"
  by (cases "exp_get (routes d) now (route_id req)")
     (simp add: middlware_def dispatch_def Let_def split: option.splits prod.splits sum.splits list.splits)

lemma middlware_NotFound:
  "middlware (d\<lparr>NotFound := nf\<rparr>) now req res =
     (middlware d now req res)\<lparr>after := (after (middlware d now req res))\<lparr>NotFound := nf\<rparr>\<rparr>"
  by (cases "exp_get (routes d) now (route_id req)")
     (simp add: middlware_def dispatch_def Let_def split: option.splits prod.splits sum.splits list.splits)

lemma middlware_NotFound_kept: "NotFound (after (middlware d now req res)) = NotFound d"
  by (cases "exp_get (routes d) now (route_id req)")
     (simp add: middlware_def dispatch_def Let_def split: option.splits prod.splits sum.splits list.splits)

lemma Next_not_test: "count_list (map (\<lambda>p. Test (pid p)) ps) Next = 0"
  by (induction ps) simp_all

text \<open>
  C3, as the code has it. A request that misses the route cache and that no page
  matches (over pages the scan can evaluate) is forwarded: \<^verbatim>\<open>next\<close> is called exactly
  once, the response is left as it was, nothing is stored in the instance map or under
  the route id, and a configured \<^verbatim>\<open>'404'\<close> page changes none of it.
\<close>

theorem no_match_forwards:
  assumes miss: "fst (exp_get (routes d) now (route_id req)) = None"
    and wf: "\<forall>p\<in>set (pages d). well_formed p"
    and none: "\<forall>p\<in>set (pages d). \<not> matches req (url_parse (url req)) p"
  shows
    "outcome (middlware d now req res) = Forwarded \<and>
     count_list (events (middlware d now req res)) Next = 1 \<and>
     res_after (middlware d now req res) = res \<and>
     instances (after (middlware d now req res)) = instances d \<and>
     cache (routes (after (middlware d now req res))) (route_id req) = None \<and>
     outcome (middlware (d\<lparr>NotFound := nf\<rparr>) now req res) = Forwarded \<and>
     events (middlware (d\<lparr>NotFound := nf\<rparr>) now req res) = events (middlware d now req res) \<and>
     res_after (middlware (d\<lparr>NotFound := nf\<rparr>) now req res) = res"
proof -
  let ?u = "url_parse (url req)"
  let ?tests = "map (\<lambda>p. Test (pid p)) (filter (method_agrees req) (pages d))"
  from none have "filter (matches req ?u) (pages d) = []"
    by (simp add: filter_empty_conv)
  with pages_filter_wf [OF wf, of req ?u]
  have "pages_filter req ?u (pages d) = (Inr [], ?tests)"
    by simp
  note n = nomatch_run [OF miss this, of res]
  show ?thesis
    by (simp add: middlware_NotFound n Next_not_test)
qed

theorem no_match_forwards_witness:
  "fst (exp_get (routes ex_dispatcher) 0 (route_id (ex_request ''GET'' ''/b'' JUndefined))) = None \<and>
   list_all well_formed (pages ex_dispatcher) \<and>
   list_all (\<lambda>p. \<not> matches (ex_request ''GET'' ''/b'' JUndefined) (url_parse ''/b'') p)
     (pages ex_dispatcher) \<and>
   middlware (ex_dispatcher\<lparr>NotFound := Some (ex_routed 9 ''GET'' ''/404'')\<rparr>) 0
       (ex_request ''GET'' ''/b'' JUndefined) ex_response =
     \<lparr>outcome = Forwarded,
      after = ex_dispatcher\<lparr>NotFound := Some (ex_routed 9 ''GET'' ''/404'')\<rparr>,
      res_after = ex_response, events = [Test 0, Test 1, Next]\<rparr>"
  using no_match_forwards
    [of ex_dispatcher 0 "ex_request ''GET'' ''/b'' JUndefined" ex_response
        "Some (ex_routed 9 ''GET'' ''/404'')"]
  by (simp add: run_defs ex_defs matches_def method_agrees_def well_formed_def)

text \<open>
  C3 as stated fails for a request that hits the route cache: the cache is looked up
  first, under the method and the pathname alone, while a router is handed the whole
  parsed URL. The page here matches on the query; after \<^verbatim>\<open>/a?x=1\<close> was dispatched,
  \<^verbatim>\<open>/a?x=2\<close> is matched by no page and is dispatched from the cache all the same,
  without a call of \<^verbatim>\<open>next\<close>.
\<close>

theorem no_match_forwards_counterexample:
  "list_all (\<lambda>p. \<not> matches (ex_request ''GET'' ''/a?x=2'' JUndefined) (url_parse ''/a?x=2'') p)
     (pages (after (middlware ex_query_dispatcher 0 (ex_request ''GET'' ''/a?x=1'' JUndefined) ex_response))) \<and>
   outcome (middlware (after (middlware ex_query_dispatcher 0 (ex_request ''GET'' ''/a?x=1'' JUndefined) ex_response))
     1000 (ex_request ''GET'' ''/a?x=2'' JUndefined) ex_response) = Dispatched ''undefined:GET@/a'' \<and>
   events (middlware (after (middlware ex_query_dispatcher 0 (ex_request ''GET'' ''/a?x=1'' JUndefined) ex_response))
     1000 (ex_request ''GET'' ''/a?x=2'' JUndefined) ex_response) = [New 7, InstancesSet ''undefined:GET@/a'']"
  by (simp add: run_defs ex_defs matches_def method_agrees_def)


section \<open>Errors reported by a page\<close>

lemma dispatched_instance:
  assumes "outcome (middlware d now req res) = Dispatched k"
  shows "k = instance_key req \<and>
         (\<exists>P ps. cache (instances (after (middlware d now req res))) k =
                Some \<lparr>val = on_error (new_page P req ps) (Fivehundered req), seen = now\<rparr>)"
  using assms
  by (cases "exp_get (routes d) now (route_id req)")
     (auto simp add: middlware_def dispatch_def Let_def exp_set_def
           split: option.splits prod.splits sum.splits list.splits)

lemma emit_errors_fivehundered:
  "listeners inst = [Fivehundered req] \<Longrightarrow>
   emit_errors inst errs res =
     res\<lparr>statusCode := (if errs = [] then statusCode res else 500),
         ended := ended res @ map message errs\<rparr>"
  by (induction errs arbitrary: res)
     (simp_all add: emit_errors_def emit_error_def fivehundered_def)

text \<open>
  C4, as the code has it. The instance a dispatched request registers carries one
  error handler, bound to its request. Each error the page reports through
  \<^verbatim>\<open>emit('error', err)\<close> runs it once: the status becomes 500 and the response is ended
  with the message of that error. The handler is subscribed with \<^verbatim>\<open>on\<close> and stays
  subscribed, so a run of reports ends the response once per report, in order.
\<close>

theorem page_error_every_report:
  assumes "outcome (middlware d now req res) = Dispatched k"
    and "cache (instances (after (middlware d now req res))) k = Some en"
  shows
    "listeners (val en) = [Fivehundered req] \<and>
     emit_error (val en) err res' = res'\<lparr>statusCode := 500, ended := ended res' @ [message err]\<rparr> \<and>
     emit_errors (val en) errs res' =
       res'\<lparr>statusCode := (if errs = [] then statusCode res' else 500),
            ended := ended res' @ map message errs\<rparr>"
proof -
  from dispatched_instance [OF assms(1)] assms(2)
  have l: "listeners (val en) = [Fivehundered req]"
    by (auto simp add: on_error_def new_page_def)
  then show ?thesis
    by (simp add: emit_errors_fivehundered) (simp add: emit_error_def fivehundered_def)
qed

theorem page_error_every_report_witness:
  "outcome (middlware ex_dispatcher 0 (ex_request ''GET'' ''/a'' JUndefined) ex_response) =
     Dispatched ''undefined:GET@/a'' \<and>
   cache (instances (after (middlware ex_dispatcher 0 (ex_request ''GET'' ''/a'' JUndefined) ex_response)))
       ''undefined:GET@/a'' =
     Some \<lparr>val = on_error (new_page (ex_routed 0 ''GET'' ''/a'') (ex_request ''GET'' ''/a'' JUndefined)
                            [(''path'', ''/a'')])
                   (Fivehundered (ex_request ''GET'' ''/a'' JUndefined)),
           seen = 0\<rparr> \<and>
   emit_error
       (on_error (new_page (ex_routed 0 ''GET'' ''/a'') (ex_request ''GET'' ''/a'' JUndefined)
                    [(''path'', ''/a'')])
          (Fivehundered (ex_request ''GET'' ''/a'' JUndefined)))
       \<lparr>message = ''boom''\<rparr> ex_response =
     \<lparr>statusCode = 500, ended = [''boom'']\<rparr>"
  using page_error_every_report
    [of ex_dispatcher 0 "ex_request ''GET'' ''/a'' JUndefined" ex_response "''undefined:GET@/a''"
        "\<lparr>val = on_error (new_page (ex_routed 0 ''GET'' ''/a'') (ex_request ''GET'' ''/a'' JUndefined)
                            [(''path'', ''/a'')])
                   (Fivehundered (ex_request ''GET'' ''/a'' JUndefined)),
           seen = 0\<rparr>" "\<lparr>message = ''boom''\<rparr>" ex_response "[]"]
  by (simp add: run_defs ex_defs)

text \<open>
  C4 as stated fails at the second report of the same instance: the response is ended
  a second time, with the second message.
\<close>

theorem page_error_once_counterexample:
  "emit_errors
     (val (the (cache (instances (after (middlware ex_dispatcher 0
                  (ex_request ''GET'' ''/a'' JUndefined) ex_response))) ''undefined:GET@/a'')))
     [\<lparr>message = ''first''\<rparr>, \<lparr>message = ''second''\<rparr>] ex_response =
   \<lparr>statusCode = 500, ended = [''first'', ''second'']\<rparr>"
  by (simp add: run_defs ex_defs emit_errors_def emit_error_def fivehundered_def)

section \<open>The route id\<close>

lemma pathname_strip:
  assumes "CHR ''?'' \<notin> set p" and "CHR ''#'' \<notin> set p"
  shows "pathname (url_parse (p @ CHR ''?'' # q)) = unset_if_empty p"
    and "pathname (url_parse p) = unset_if_empty p"
proof -
  have a: "\<forall>c\<in>set p. c \<noteq> CHR ''#''" and b: "\<forall>c\<in>set p. c \<noteq> CHR ''?''"
    using assms by auto
  have "takeWhile (\<lambda>c. c \<noteq> CHR ''#'') (p @ CHR ''?'' # q) =
          p @ CHR ''?'' # takeWhile (\<lambda>c. c \<noteq> CHR ''#'') q"
    using a by (simp add: takeWhile_append2)
  moreover have "takeWhile (\<lambda>c. c \<noteq> CHR ''?'') (p @ CHR ''?'' # r) = p" for r
    using b by (simp add: takeWhile_append2)
  ultimately show "pathname (url_parse (p @ CHR ''?'' # q)) = unset_if_empty p"
    by (simp add: url_parse_def Let_def)
  have t: "takeWhile (\<lambda>c. c \<noteq> CHR ''#'') p = p" "takeWhile (\<lambda>c. c \<noteq> CHR ''?'') p = p"
    using a b by simp_all
  show "pathname (url_parse p) = unset_if_empty p"
    by (simp add: url_parse_def Let_def t)
qed

text \<open>
  C5. The route id is made of the method and the pathname of the parsed URL and of
  nothing else: two requests with the same method and the same pathname have the same
  route id and so look up the same entry of the route cache. For a path without
  \<^verbatim>\<open>?\<close> and \<^verbatim>\<open>#\<close>, the URLs made of it and any query, or no query at all, give the
  same route id, the method, \<^verbatim>\<open>@\<close> and the path.
\<close>

theorem route_key_ignores_query:
  "(req_method r1 = req_method r2 \<and>
    pathname (url_parse (url r1)) = pathname (url_parse (url r2)) \<longrightarrow>
      route_id r1 = route_id r2 \<and>
      exp_get (routes d) now (route_id r1) = exp_get (routes d) now (route_id r2)) \<and>
   (CHR ''?'' \<notin> set p \<and> CHR ''#'' \<notin> set p \<longrightarrow>
      route_id \<lparr>req_method = m, url = p @ CHR ''?'' # q1, sessionID = s1\<rparr> =
        m @ ''@'' @ (if p = [] then ''null'' else p) \<and>
      route_id \<lparr>req_method = m, url = p @ CHR ''?'' # q2, sessionID = s2\<rparr> =
        route_id \<lparr>req_method = m, url = p @ CHR ''?'' # q1, sessionID = s1\<rparr> \<and>
      route_id \<lparr>req_method = m, url = p, sessionID = s3\<rparr> =
        route_id \<lparr>req_method = m, url = p @ CHR ''?'' # q1, sessionID = s1\<rparr>)"
proof (intro conjI impI)
  assume a: "req_method r1 = req_method r2 \<and>
    pathname (url_parse (url r1)) = pathname (url_parse (url r2))"
  then show id: "route_id r1 = route_id r2"
    by (intro route_id_cong) simp_all
  show "exp_get (routes d) now (route_id r1) = exp_get (routes d) now (route_id r2)"
    by (simp only: id)
next
  assume "CHR ''?'' \<notin> set p \<and> CHR ''#'' \<notin> set p"
  then have q: "CHR ''?'' \<notin> set p" and h: "CHR ''#'' \<notin> set p"
    by simp_all
  note s = pathname_strip [OF q h]
  show "route_id \<lparr>req_method = m, url = p @ CHR ''?'' # q1, sessionID = s1\<rparr> =
        m @ ''@'' @ (if p = [] then ''null'' else p)"
    by (simp add: route_id_def pathname_text_def s unset_if_empty_def)
  show "route_id \<lparr>req_method = m, url = p @ CHR ''?'' # q2, sessionID = s2\<rparr> =
        route_id \<lparr>req_method = m, url = p @ CHR ''?'' # q1, sessionID = s1\<rparr>"
    by (simp add: route_id_def pathname_text_def s)
  show "route_id \<lparr>req_method = m, url = p, sessionID = s3\<rparr> =
        route_id \<lparr>req_method = m, url = p @ CHR ''?'' # q1, sessionID = s1\<rparr>"
    by (simp add: route_id_def pathname_text_def s)
qed

theorem route_key_ignores_query_witness:
  "CHR ''?'' \<notin> set ''/user/42'' \<and> CHR ''#'' \<notin> set ''/user/42'' \<and>
   route_id \<lparr>req_method = ''GET'', url = ''/user/42?tab=1'', sessionID = JStr ''a''\<rparr> = ''GET@/user/42'' \<and>
   route_id \<lparr>req_method = ''GET'', url = ''/user/42?tab=2&x=y'', sessionID = JNull\<rparr> =
     route_id \<lparr>req_method = ''GET'', url = ''/user/42?tab=1'', sessionID = JStr ''a''\<rparr> \<and>
   route_id \<lparr>req_method = ''GET'', url = ''/user/42'', sessionID = JUndefined\<rparr> =
     route_id \<lparr>req_method = ''GET'', url = ''/user/42?tab=1'', sessionID = JStr ''a''\<rparr>"
  using route_key_ignores_query
    [of undefined undefined undefined undefined "''/user/42''" "''GET''" "''tab=1''" "JStr ''a''"
        "''tab=2&x=y''" JNull JUndefined]
  by simp


section \<open>The not-found handler\<close>

lemma middlware_outcomes:
  "outcome (middlware d now req res) = Dispatched (instance_key req) \<or>
   outcome (middlware d now req res) = Forwarded \<or>
   (\<exists>err. outcome (middlware d now req res) = Threw err)"
  by (cases "exp_get (routes d) now (route_id req)")
     (simp add: middlware_def dispatch_def Let_def split: option.splits prod.splits sum.splits list.splits)

lemma fourohfour_status: "statusCode (fst (fourohfour nf req res)) = 404"
  by (simp add: fourohfour_def Let_def split: option.splits)

lemma tests_no_New: "filter is_New (map (\<lambda>p. Test (pid p)) ps) = []"
  by (induction ps) simp_all

lemma pages_filter_no_New: "filter is_New (snd (pages_filter req u ps)) = []"
  by (induction ps)
     (auto simp add: filter_cb_def split: option.splits prod.splits sum.splits)

lemma constructed_is_registered:
  "(case outcome (middlware d now req res) of
      Dispatched k \<Rightarrow>
        (\<exists>P ps. cache (instances (after (middlware d now req res))) k =
                   Some \<lparr>val = on_error (new_page P req ps) (Fivehundered req), seen = now\<rparr> \<and>
                 filter is_New (events (middlware d now req res)) = [New (pid P)])
    | _ \<Rightarrow> filter is_New (events (middlware d now req res)) = [])"
proof (cases "exp_get (routes d) now (route_id req)")
  case (Pair cached rts)
  show ?thesis
  proof (cases cached)
    case (Some c)
    with Pair show ?thesis
      by (auto simp add: middlware_def dispatch_def Let_def exp_set_def)
  next
    case None
    obtain keep ev where s: "pages_filter req (url_parse (url req)) (pages d) = (keep, ev)"
      by (cases "pages_filter req (url_parse (url req)) (pages d)")
    from pages_filter_no_New [of req "url_parse (url req)" "pages d"] s
    have ev: "filter is_New ev = []" by simp
    from Pair None s ev show ?thesis
      by (auto simp add: middlware_def dispatch_def Let_def exp_set_def
               split: option.splits sum.splits list.splits)
  qed
qed

text \<open>
  C9, as the code has it. The middleware never runs \<open>fourohfour\<close>: whatever the
  request, it hands the response back as it got it (so it neither sets the status 404,
  which \<open>fourohfour\<close> always does, nor writes that handler's body), its result does not
  depend on the \<^verbatim>\<open>'404'\<close> option, and the only page it constructs is the one it
  registers for a dispatched request; for a forwarded or failed request it constructs
  none. A request that misses the route cache and matches no page is forwarded whatever
  the \<^verbatim>\<open>'404'\<close> option is, and no page is constructed for it.
\<close>

theorem not_found_never_used:
  "res_after (middlware d now req res) = res \<and>
   NotFound (after (middlware d now req res)) = NotFound d \<and>
   middlware (d\<lparr>NotFound := nf\<rparr>) now req res =
     (middlware d now req res)\<lparr>after := (after (middlware d now req res))\<lparr>NotFound := nf\<rparr>\<rparr> \<and>
   (statusCode res \<noteq> 404 \<longrightarrow>
      res_after (middlware d now req res) \<noteq> fst (fourohfour (NotFound d) req res)) \<and>
   (case outcome (middlware d now req res) of
      Dispatched k \<Rightarrow>
        (\<exists>P ps. cache (instances (after (middlware d now req res))) k =
                   Some \<lparr>val = on_error (new_page P req ps) (Fivehundered req), seen = now\<rparr> \<and>
                 filter is_New (events (middlware d now req res)) = [New (pid P)])
    | _ \<Rightarrow> filter is_New (events (middlware d now req res)) = []) \<and>
   (fst (exp_get (routes d) now (route_id req)) = None \<and>
    (\<forall>p\<in>set (pages d). well_formed p \<and> \<not> matches req (url_parse (url req)) p) \<longrightarrow>
      outcome (middlware (d\<lparr>NotFound := nf\<rparr>) now req res) = Forwarded \<and>
      filter is_New (events (middlware (d\<lparr>NotFound := nf\<rparr>) now req res)) = [])"
proof (intro conjI impI)
  show "res_after (middlware d now req res) = res"
    by (rule middlware_res_after)
  show "NotFound (after (middlware d now req res)) = NotFound d"
    by (rule middlware_NotFound_kept)
  show "middlware (d\<lparr>NotFound := nf\<rparr>) now req res =
     (middlware d now req res)\<lparr>after := (after (middlware d now req res))\<lparr>NotFound := nf\<rparr>\<rparr>"
    by (rule middlware_NotFound)
  show "res_after (middlware d now req res) \<noteq> fst (fourohfour (NotFound d) req res)"
    if "statusCode res \<noteq> 404"
  proof
    assume "res_after (middlware d now req res) = fst (fourohfour (NotFound d) req res)"
    then have "statusCode res = statusCode (fst (fourohfour (NotFound d) req res))"
      by (simp add: middlware_res_after)
    with that show False
      by (simp add: fourohfour_status)
  qed
  show "case outcome (middlware d now req res) of
      Dispatched k \<Rightarrow>
        (\<exists>P ps. cache (instances (after (middlware d now req res))) k =
                   Some \<lparr>val = on_error (new_page P req ps) (Fivehundered req), seen = now\<rparr> \<and>
                 filter is_New (events (middlware d now req res)) = [New (pid P)])
    | _ \<Rightarrow> filter is_New (events (middlware d now req res)) = []"
    by (rule constructed_is_registered)
next
  assume a: "fst (exp_get (routes d) now (route_id req)) = None \<and>
    (\<forall>p\<in>set (pages d). well_formed p \<and> \<not> matches req (url_parse (url req)) p)"
  let ?u = "url_parse (url req)"
  from a have "filter (matches req ?u) (pages d) = []" and wf: "\<forall>p\<in>set (pages d). well_formed p"
    by (simp_all add: filter_empty_conv)
  with pages_filter_wf [OF wf, of req ?u]
  have "pages_filter req ?u (pages d) =
          (Inr [], map (\<lambda>p. Test (pid p)) (filter (method_agrees req) (pages d)))"
    by simp
  from a nomatch_run [OF _ this, of now res]
  show "outcome (middlware (d\<lparr>NotFound := nf\<rparr>) now req res) = Forwarded"
    and "filter is_New (events (middlware (d\<lparr>NotFound := nf\<rparr>) now req res)) = []"
    by (simp_all add: middlware_NotFound tests_no_New)
qed

theorem not_found_never_used_witness:
  "statusCode ex_response \<noteq> 404 \<and>
   fst (exp_get (routes ex_dispatcher) 0 (route_id (ex_request ''PUT'' ''/a'' JUndefined))) = None \<and>
   list_all (\<lambda>p. well_formed p \<and> \<not> matches (ex_request ''PUT'' ''/a'' JUndefined) (url_parse ''/a'') p)
     (pages ex_dispatcher) \<and>
   fst (fourohfour (Some (ex_routed 9 ''GET'' ''/404'')) (ex_request ''PUT'' ''/a'' JUndefined) ex_response) =
     \<lparr>statusCode = 404, ended = []\<rparr> \<and>
   middlware (ex_dispatcher\<lparr>NotFound := Some (ex_routed 9 ''GET'' ''/404'')\<rparr>) 0
       (ex_request ''PUT'' ''/a'' JUndefined) ex_response =
     \<lparr>outcome = Forwarded,
      after = ex_dispatcher\<lparr>NotFound := Some (ex_routed 9 ''GET'' ''/404'')\<rparr>,
      res_after = ex_response, events = [Next]\<rparr>"
  using not_found_never_used
    [of ex_dispatcher 0 "ex_request ''PUT'' ''/a'' JUndefined" ex_response
        "Some (ex_routed 9 ''GET'' ''/404'')"]
  by (simp add: run_defs ex_defs matches_def method_agrees_def well_formed_def fourohfour_def)

text \<open>
  C9 as stated fails where it says that a request no page matches is always forwarded:
  with a \<^verbatim>\<open>'404'\<close> page configured, the request \<^verbatim>\<open>/a?x=2\<close> is matched by no page, yet
  it finds the route stored for \<^verbatim>\<open>/a?x=1\<close> under the same route id and is dispatched
  to that page, with no call of \<^verbatim>\<open>next\<close>. The \<^verbatim>\<open>'404'\<close> page is not constructed here
  either.
\<close>

theorem not_found_no_match_counterexample:
  "NotFound (after (middlware (ex_query_dispatcher\<lparr>NotFound := Some (ex_routed 9 ''GET'' ''/404'')\<rparr>) 0
       (ex_request ''GET'' ''/a?x=1'' (JStr ''s'')) ex_response)) =
     Some (ex_routed 9 ''GET'' ''/404'') \<and>
   list_all (\<lambda>p. well_formed p \<and>
               \<not> matches (ex_request ''GET'' ''/a?x=2'' (JStr ''s'')) (url_parse ''/a?x=2'') p)
     (pages (after (middlware (ex_query_dispatcher\<lparr>NotFound := Some (ex_routed 9 ''GET'' ''/404'')\<rparr>) 0
       (ex_request ''GET'' ''/a?x=1'' (JStr ''s'')) ex_response))) \<and>
   outcome (middlware (after (middlware (ex_query_dispatcher\<lparr>NotFound := Some (ex_routed 9 ''GET'' ''/404'')\<rparr>) 0
       (ex_request ''GET'' ''/a?x=1'' (JStr ''s'')) ex_response))
     2000 (ex_request ''GET'' ''/a?x=2'' (JStr ''s'')) ex_response) = Dispatched ''s:GET@/a'' \<and>
   events (middlware (after (middlware (ex_query_dispatcher\<lparr>NotFound := Some (ex_routed 9 ''GET'' ''/404'')\<rparr>) 0
       (ex_request ''GET'' ''/a?x=1'' (JStr ''s'')) ex_response))
     2000 (ex_request ''GET'' ''/a?x=2'' (JStr ''s'')) ex_response) = [New 7, InstancesSet ''s:GET@/a''] \<and>
   count_list
     (events (middlware (after (middlware (ex_query_dispatcher\<lparr>NotFound := Some (ex_routed 9 ''GET'' ''/404'')\<rparr>) 0
       (ex_request ''GET'' ''/a?x=1'' (JStr ''s'')) ex_response))
     2000 (ex_request ''GET'' ''/a?x=2'' (JStr ''s'')) ex_response)) Next = 0"
  by (simp add: run_defs ex_defs matches_def method_agrees_def well_formed_def)


section \<open>Expiry\<close>

lemma attach_maps:
  assumes "attach e options = Inr d"
  shows "routes d = Expirable five_minutes (touch_on_get e)"
    and "instances d = Expirable five_minutes (touch_on_get e)"
  using assms
  by (auto simp add: attach_def Let_def split: option.splits sum.splits)

lemma middlware_expiree:
  "expiree (routes (after (middlware d now req res))) = expiree (routes d)"
  "expiree (instances (after (middlware d now req res))) = expiree (instances d)"
  by (cases "exp_get (routes d) now (route_id req)";
      simp add: middlware_def dispatch_def Let_def exp_set_def exp_get_def
           split: option.splits prod.splits sum.splits list.splits if_splits;
      auto)+

text \<open>
  C6. Both maps \<open>attach\<close> hands to the middleware are expiring maps of five minutes
  (300000 ms), empty at first, and the middleware never changes the time to live of
  either. In such a map an entry idle for at least the time to live is absent on
  lookup (and purged), one idle for less is returned, and a fresh \<open>set\<close> makes the
  key available again until the time to live has passed once more.
\<close>

theorem expiring_maps_five_minutes:
  "(attach e options = Inr d0 \<longrightarrow>
      expiree (routes d0) = 300000 \<and> expiree (instances d0) = 300000 \<and>
      fst (exp_get (routes d0) now k) = None \<and> fst (exp_get (instances d0) now k) = None) \<and>
   expiree (routes (after (middlware d now req res))) = expiree (routes d) \<and>
   expiree (instances (after (middlware d now req res))) = expiree (instances d) \<and>
   (cache m k = Some en \<and> expiree m \<le> later - seen en \<longrightarrow>
      fst (exp_get m later k) = None \<and> cache (snd (exp_get m later k)) k = None) \<and>
   (cache m k = Some en \<and> later - seen en < expiree m \<longrightarrow> fst (exp_get m later k) = Some (val en)) \<and>
   (again - later < expiree m \<longrightarrow> fst (exp_get (exp_set m later k v) again k) = Some v) \<and>
   (expiree m \<le> again - later \<longrightarrow> fst (exp_get (exp_set m later k v) again k) = None)"
proof (intro conjI impI)
  assume a: "attach e options = Inr d0"
  note m = attach_maps [OF a]
  show "expiree (routes d0) = 300000" "expiree (instances d0) = 300000"
    by (simp_all add: m Expirable_def five_minutes_def)
  show "fst (exp_get (routes d0) now k) = None" "fst (exp_get (instances d0) now k) = None"
    by (simp_all add: m Expirable_def exp_get_def)
next
  show "expiree (routes (after (middlware d now req res))) = expiree (routes d)"
    by (rule middlware_expiree)
  show "expiree (instances (after (middlware d now req res))) = expiree (instances d)"
    by (rule middlware_expiree)
next
  assume "cache m k = Some en \<and> expiree m \<le> later - seen en"
  then show "fst (exp_get m later k) = None" "cache (snd (exp_get m later k)) k = None"
    by (simp_all add: exp_get_def)
next
  assume "cache m k = Some en \<and> later - seen en < expiree m"
  then show "fst (exp_get m later k) = Some (val en)"
    by (simp add: exp_get_def)
next
  assume "again - later < expiree m"
  then show "fst (exp_get (exp_set m later k v) again k) = Some v"
    by (rule exp_get_set_same)
next
  assume "expiree m \<le> again - later"
  then show "fst (exp_get (exp_set m later k v) again k) = None"
    by (simp add: exp_get_def exp_set_def)
qed


theorem expiring_maps_five_minutes_witness:
  "attach ex_env
     (Some \<lparr>opt_pages = Some (PagesArray [Fun (ex_page 0 ''GET'' ''/a''), Fun (ex_page 1 ''get'' ''/a''),
                                          Fun (ex_page 2 ''POST'' ''/a'')]),
            opt_404 = None\<rparr>) = Inr ex_dispatcher \<and>
   expiree (routes ex_dispatcher) = 300000 \<and>
   expiree (instances ex_dispatcher) = 300000 \<and>
   cache (routes (after (middlware ex_dispatcher 0 (ex_request ''GET'' ''/a'' JUndefined) ex_response)))
       ''GET@/a'' =
     Some \<lparr>val = \<lparr>Page = ex_routed 0 ''GET'' ''/a'', params = [(''path'', ''/a'')]\<rparr>, seen = 0\<rparr> \<and>
   fst (exp_get (routes (after (middlware ex_dispatcher 0 (ex_request ''GET'' ''/a'' JUndefined) ex_response)))
          299999 ''GET@/a'') =
     Some \<lparr>Page = ex_routed 0 ''GET'' ''/a'', params = [(''path'', ''/a'')]\<rparr> \<and>
   fst (exp_get (routes (after (middlware ex_dispatcher 0 (ex_request ''GET'' ''/a'' JUndefined) ex_response)))
          300000 ''GET@/a'') = None \<and>
   fst (exp_get
          (exp_set (routes (after (middlware ex_dispatcher 0 (ex_request ''GET'' ''/a'' JUndefined) ex_response)))
             300000 ''GET@/a'' \<lparr>Page = ex_routed 0 ''GET'' ''/a'', params = []\<rparr>)
          300001 ''GET@/a'') =
     Some \<lparr>Page = ex_routed 0 ''GET'' ''/a'', params = []\<rparr>"
proof -
  let ?m = "routes (after (middlware ex_dispatcher 0 (ex_request ''GET'' ''/a'' JUndefined) ex_response))"
  let ?en = "\<lparr>val = \<lparr>Page = ex_routed 0 ''GET'' ''/a'', params = [(''path'', ''/a'')]\<rparr>, seen = 0::int\<rparr>"
  let ?os = "Some \<lparr>opt_pages = Some (PagesArray [Fun (ex_page 0 ''GET'' ''/a''),
                 Fun (ex_page 1 ''get'' ''/a''), Fun (ex_page 2 ''POST'' ''/a'')]), opt_404 = None\<rparr>"
  have a: "attach ex_env ?os = Inr ex_dispatcher"
    by (rule ex_attach)
  have c: "cache ?m ''GET@/a'' = Some ?en"
    by (simp add: run_defs ex_defs)
  have t: "expiree ?m = 300000"
    by (simp add: middlware_expiree) (simp add: ex_dispatcher_def Expirable_def five_minutes_def)
  from expiring_maps_five_minutes
         [where e = ex_env and ?d0.0 = ex_dispatcher and options = ?os and m = ?m and en = ?en
            and now = 0 and d = ex_dispatcher and req = "ex_request ''GET'' ''/a'' JUndefined"
            and res = ex_response and later = 300000 and again = 300001 and k = "''GET@/a''"
            and v = "\<lparr>Page = ex_routed 0 ''GET'' ''/a'', params = []\<rparr>"]
  have 1: "expiree (routes ex_dispatcher) = 300000 \<and> expiree (instances ex_dispatcher) = 300000 \<and>
           fst (exp_get ?m 300000 ''GET@/a'') = None \<and>
           fst (exp_get (exp_set ?m 300000 ''GET@/a'' \<lparr>Page = ex_routed 0 ''GET'' ''/a'', params = []\<rparr>)
                  300001 ''GET@/a'') =
             Some \<lparr>Page = ex_routed 0 ''GET'' ''/a'', params = []\<rparr>"
    by (simp add: a c t del: One_nat_def)
  from expiring_maps_five_minutes
         [where m = ?m and en = ?en and later = 299999 and k = "''GET@/a''" and e = ex_env
            and ?d0.0 = ex_dispatcher and options = None and now = 0 and d = ex_dispatcher
            and req = "ex_request ''GET'' ''/a'' JUndefined" and res = ex_response and again = 0
            and v = "\<lparr>Page = ex_routed 0 ''GET'' ''/a'', params = []\<rparr>"]
  have 2: "fst (exp_get ?m 299999 ''GET@/a'') =
             Some \<lparr>Page = ex_routed 0 ''GET'' ''/a'', params = [(''path'', ''/a'')]\<rparr>"
    by (simp add: c t del: One_nat_def)
  from a c 1 2 show ?thesis
    by (simp del: One_nat_def)
qed

section \<open>The session in the instance key\<close>

lemma filter_cb_session: "filter_cb (req\<lparr>sessionID := s\<rparr>) u p = filter_cb req u p"
  by (simp add: filter_cb_def split: option.splits)

lemma pages_filter_session:
  "pages_filter (req\<lparr>sessionID := s\<rparr>) u ps = pages_filter req u ps"
  by (induction ps) (simp_all add: filter_cb_session split: prod.splits sum.splits)

lemma route_id_session: "route_id (req\<lparr>sessionID := s\<rparr>) = route_id req"
  by (simp add: route_id_def)

lemma session_never_throws:
  "outcome (middlware d now (req\<lparr>sessionID := s\<rparr>) res) =
     (case outcome (middlware d now req res) of
        Dispatched _ \<Rightarrow> Dispatched (instance_key (req\<lparr>sessionID := s\<rparr>))
      | Forwarded \<Rightarrow> Forwarded
      | Threw err \<Rightarrow> Threw err)"
  by (cases "exp_get (routes d) now (route_id req)")
     (simp add: middlware_def dispatch_def Let_def route_id_session pages_filter_session
           split: option.splits prod.splits sum.splits list.splits)

lemma wf_never_throws:
  assumes "fst (exp_get (routes d) now (route_id req)) \<noteq> None \<or> (\<forall>p\<in>set (pages d). well_formed p)"
  shows "outcome (middlware d now req res) = Dispatched (instance_key req) \<or>
         outcome (middlware d now req res) = Forwarded"
proof (cases "fst (exp_get (routes d) now (route_id req))")
  case (Some c)
  then show ?thesis
    by (simp add: hit_run)
next
  case None
  with assms have wf: "\<forall>p\<in>set (pages d). well_formed p"
    by simp
  let ?u = "url_parse (url req)"
  note scan = pages_filter_wf [OF wf, of req ?u]
  show ?thesis
  proof (cases "filter (matches req ?u) (pages d)")
    case Nil
    with scan have "pages_filter req ?u (pages d) =
        (Inr [], map (\<lambda>p. Test (pid p)) (filter (method_agrees req) (pages d)))"
      by simp
    from nomatch_run(2) [OF None this] show ?thesis
      by simp
  next
    case (Cons P rest)
    with scan have s: "pages_filter req ?u (pages d) =
        (Inr (P # rest), map (\<lambda>p. Test (pid p)) (filter (method_agrees req) (pages d)))"
      by simp
    from kept_has_router [OF s, of P] obtain r where "page_router P = Some r"
      by auto
    from match_run(2) [OF None s this] show ?thesis
      by simp
  qed
qed

text \<open>
  C7. The instance key is the text of the session identifier, a colon and the route
  id; a missing identifier concatenates as the fixed text \<^verbatim>\<open>undefined\<close> (or \<^verbatim>\<open>null\<close>),
  an empty one as the empty text. Every dispatched request has its page instance stored
  under that key. The session takes no part in whether the middleware throws: changing
  it changes the key of a dispatched request and nothing else of the outcome; and over
  pages that have a method and a router, or on a hit of the route cache, the middleware
  does not throw at all.
\<close>

theorem missing_session_key:
  "(sessionID req = JUndefined \<longrightarrow> instance_key req = ''undefined:'' @ route_id req) \<and>
   (sessionID req = JNull \<longrightarrow> instance_key req = ''null:'' @ route_id req) \<and>
   (sessionID req = JStr [] \<longrightarrow> instance_key req = '':'' @ route_id req) \<and>
   (outcome (middlware d now req res) = Dispatched k \<longrightarrow>
      k = instance_key req \<and>
      (\<exists>P ps. cache (instances (after (middlware d now req res))) k =
                 Some \<lparr>val = on_error (new_page P req ps) (Fivehundered req), seen = now\<rparr>)) \<and>
   outcome (middlware d now (req\<lparr>sessionID := s\<rparr>) res) =
     (case outcome (middlware d now req res) of
        Dispatched _ \<Rightarrow> Dispatched (instance_key (req\<lparr>sessionID := s\<rparr>))
      | Forwarded \<Rightarrow> Forwarded
      | Threw err \<Rightarrow> Threw err) \<and>
   (fst (exp_get (routes d) now (route_id req)) \<noteq> None \<or> (\<forall>p\<in>set (pages d). well_formed p) \<longrightarrow>
      outcome (middlware d now req res) = Dispatched (instance_key req) \<or>
      outcome (middlware d now req res) = Forwarded)"
proof (intro conjI impI)
  show "instance_key req = ''undefined:'' @ route_id req" if "sessionID req = JUndefined"
    using that by (simp add: instance_key_def)
  show "instance_key req = ''null:'' @ route_id req" if "sessionID req = JNull"
    using that by (simp add: instance_key_def)
  show "instance_key req = '':'' @ route_id req" if "sessionID req = JStr []"
    using that by (simp add: instance_key_def)
  show "outcome (middlware d now (req\<lparr>sessionID := s\<rparr>) res) =
     (case outcome (middlware d now req res) of
        Dispatched _ \<Rightarrow> Dispatched (instance_key (req\<lparr>sessionID := s\<rparr>))
      | Forwarded \<Rightarrow> Forwarded
      | Threw err \<Rightarrow> Threw err)"
    by (rule session_never_throws)
next
  assume "outcome (middlware d now req res) = Dispatched k"
  from dispatched_instance [OF this]
  show "k = instance_key req"
    and "\<exists>P ps. cache (instances (after (middlware d now req res))) k =
                 Some \<lparr>val = on_error (new_page P req ps) (Fivehundered req), seen = now\<rparr>"
    by blast+
next
  assume "fst (exp_get (routes d) now (route_id req)) \<noteq> None \<or> (\<forall>p\<in>set (pages d). well_formed p)"
  then show "outcome (middlware d now req res) = Dispatched (instance_key req) \<or>
      outcome (middlware d now req res) = Forwarded"
    by (rule wf_never_throws)
qed

theorem missing_session_key_witness:
  "sessionID (ex_request ''GET'' ''/a'' JUndefined) = JUndefined \<and>
   list_all well_formed (pages ex_dispatcher) \<and>
   outcome (middlware ex_dispatcher 0 (ex_request ''GET'' ''/a'' JUndefined) ex_response) =
     Dispatched ''undefined:GET@/a'' \<and>
   outcome (middlware ex_dispatcher 0 (ex_request ''GET'' ''/a'' JNull) ex_response) =
     Dispatched ''null:GET@/a'' \<and>
   outcome (middlware ex_dispatcher 0 (ex_request ''GET'' ''/a'' (JStr '''')) ex_response) =
     Dispatched '':GET@/a'' \<and>
   cache (instances (after (middlware ex_dispatcher 0 (ex_request ''GET'' ''/a'' JUndefined) ex_response)))
       ''undefined:GET@/a'' =
     Some \<lparr>val = on_error (new_page (ex_routed 0 ''GET'' ''/a'') (ex_request ''GET'' ''/a'' JUndefined)
                            [(''path'', ''/a'')])
                   (Fivehundered (ex_request ''GET'' ''/a'' JUndefined)),
           seen = 0\<rparr>"
proof -
  let ?r = "ex_request ''GET'' ''/a'' JUndefined"
  have wf: "\<forall>p\<in>set (pages ex_dispatcher). well_formed p"
    by (simp add: ex_defs well_formed_def)
  have o: "outcome (middlware ex_dispatcher 0 ?r ex_response) = Dispatched ''undefined:GET@/a''"
    by (simp add: run_defs ex_defs)
  have c: "cache (instances (after (middlware ex_dispatcher 0 ?r ex_response))) ''undefined:GET@/a'' =
     Some \<lparr>val = on_error (new_page (ex_routed 0 ''GET'' ''/a'') ?r [(''path'', ''/a'')]) (Fivehundered ?r),
           seen = 0\<rparr>"
    by (simp add: run_defs ex_defs)
  have n: "ex_request ''GET'' ''/a'' JNull = ?r\<lparr>sessionID := JNull\<rparr>"
    and e: "ex_request ''GET'' ''/a'' (JStr '''') = ?r\<lparr>sessionID := JStr ''''\<rparr>"
    by (simp_all add: ex_request_def)
  from missing_session_key [of ?r ex_dispatcher 0 ex_response "''undefined:GET@/a''" JNull] o
  have 1: "outcome (middlware ex_dispatcher 0 (ex_request ''GET'' ''/a'' JNull) ex_response) =
     Dispatched ''null:GET@/a''"
    unfolding n by (simp add: instance_key_def route_id_def url_parse_def unset_if_empty_def
        pathname_text_def ex_request_def)
  from missing_session_key [of ?r ex_dispatcher 0 ex_response "''undefined:GET@/a''" "JStr ''''"] o
  have 2: "outcome (middlware ex_dispatcher 0 (ex_request ''GET'' ''/a'' (JStr '''')) ex_response) =
     Dispatched '':GET@/a''"
    unfolding e by (simp add: instance_key_def route_id_def url_parse_def unset_if_empty_def
        pathname_text_def ex_request_def)
  from wf o c 1 2 show ?thesis
    by (simp add: ex_request_def list_all_iff)
qed


section \<open>What attach refuses\<close>

lemma map_page_Inr:
  assumes "map_page e s = Inr p"
  shows "\<exists>q. load e s = Inr (Fun q) \<and> \<not> instanceof_Page q \<and> \<not> instanceof_Page p \<and>
             page_router p \<noteq> None"
  using assms
  by (auto simp add: map_page_def split: sum.splits supplied.splits if_splits option.splits)

lemma map_page_refuses:
  assumes "load e s = Inr v" and "not_a_constructor v \<or> initialized_page v"
  shows "\<exists>err. map_page e s = Inl err"
  using assms
  by (auto simp add: map_page_def not_a_constructor_def initialized_page_def
           split: supplied.splits)

lemma map_pages_Inr:
  "map_pages e ss = Inr ps \<Longrightarrow>
   (\<forall>s\<in>set ss. \<exists>q. load e s = Inr (Fun q) \<and> \<not> instanceof_Page q) \<and>
   (\<forall>p\<in>set ps. \<not> instanceof_Page p \<and> page_router p \<noteq> None) \<and> length ps = length ss"
proof (induction ss arbitrary: ps)
  case Nil
  then show ?case by simp
next
  case (Cons s ss)
  from Cons.prems obtain p ps' where p: "map_page e s = Inr p" and ps': "map_pages e ss = Inr ps'"
    and eq: "ps = p # ps'"
    by (auto split: sum.splits)
  from map_page_Inr [OF p] Cons.IH [OF ps'] eq show ?case
    by auto
qed

lemma map_pages_refuses:
  assumes "s \<in> set ss" and "load e s = Inr v" and "not_a_constructor v \<or> initialized_page v"
  shows "\<exists>err. map_pages e ss = Inl err"
proof (cases "map_pages e ss")
  case (Inl err)
  then show ?thesis by blast
next
  case (Inr ps)
  from map_pages_Inr [OF this] assms(1) obtain q where "load e s = Inr (Fun q)" "\<not> instanceof_Page q"
    by blast
  with assms(2,3) show ?thesis
    by (auto simp add: not_a_constructor_def initialized_page_def)
qed

text \<open>
  C8. \<open>attach\<close> itself ends in an error, and so returns no middleware, when the
  \<^verbatim>\<open>pages\<close> option is missing (no options at all, or options without it), and when any
  entry of the list, once loaded, is not a function or is an initialized page: an
  object is refused for its type (an initialized page instance is such an object), a
  function that is an instance of \<^verbatim>\<open>Page\<close> as already initialized. Read the other way:
  a middleware exists only if the option was there and every entry loaded to a function
  that is not an initialized page, and then every page the middleware scans is such a
  function with its router set. So none of the three conditions is left to a request.
\<close>

theorem attach_fails_fast:
  "attach e None = Inl MissingPages \<and>
   attach e (Some \<lparr>opt_pages = None, opt_404 = nf\<rparr>) = Inl MissingPages \<and>
   map_page e (Obj b) = Inl (InvalidPageType ''object'') \<and>
   map_page e (Other t) = Inl (InvalidPageType t) \<and>
   (instanceof_Page p \<longrightarrow> map_page e (Fun p) = Inl AlreadyInitialized) \<and>
   (list_pages e po = Inr ss \<and> s \<in> set ss \<and> load e s = Inr v \<and>
    (not_a_constructor v \<or> initialized_page v) \<longrightarrow>
      (\<exists>err. attach e (Some \<lparr>opt_pages = Some po, opt_404 = nf\<rparr>) = Inl err)) \<and>
   (attach e options = Inr d \<longrightarrow>
      (\<exists>os po ss. options = Some os \<and> opt_pages os = Some po \<and> list_pages e po = Inr ss \<and>
         (\<forall>s\<in>set ss. \<exists>q. load e s = Inr (Fun q) \<and> \<not> instanceof_Page q) \<and>
         length (pages d) = length ss) \<and>
      (\<forall>p\<in>set (pages d). \<not> instanceof_Page p \<and> page_router p \<noteq> None))"
proof (intro conjI impI)
  show "attach e None = Inl MissingPages"
    by (simp add: attach_def)
  show "attach e (Some \<lparr>opt_pages = None, opt_404 = nf\<rparr>) = Inl MissingPages"
    by (simp add: attach_def)
  show "map_page e (Obj b) = Inl (InvalidPageType ''object'')"
    by (simp add: map_page_def load_def)
  show "map_page e (Other t) = Inl (InvalidPageType t)"
    by (simp add: map_page_def load_def)
  show "map_page e (Fun p) = Inl AlreadyInitialized" if "instanceof_Page p"
    using that by (simp add: map_page_def load_def)
next
  assume a: "list_pages e po = Inr ss \<and> s \<in> set ss \<and> load e s = Inr v \<and>
    (not_a_constructor v \<or> initialized_page v)"
  then obtain err where "map_pages e ss = Inl err"
    using map_pages_refuses [of s ss e v] by blast
  with a show "\<exists>err. attach e (Some \<lparr>opt_pages = Some po, opt_404 = nf\<rparr>) = Inl err"
    by (simp add: attach_def)
next
  assume a: "attach e options = Inr d"
  then obtain os po ss ps where o: "options = Some os" "opt_pages os = Some po"
    "list_pages e po = Inr ss" "map_pages e ss = Inr ps" "pages d = ps"
    by (auto simp add: attach_def Let_def split: option.splits sum.splits)
  note m = map_pages_Inr [OF o(4)]
  from o m show "\<exists>os po ss. options = Some os \<and> opt_pages os = Some po \<and> list_pages e po = Inr ss \<and>
         (\<forall>s\<in>set ss. \<exists>q. load e s = Inr (Fun q) \<and> \<not> instanceof_Page q) \<and>
         length (pages d) = length ss"
    by blast
  from o m show "\<forall>p\<in>set (pages d). \<not> instanceof_Page p \<and> page_router p \<noteq> None"
    by blast
qed

theorem attach_fails_fast_witness:
  "list_pages ex_env (PagesArray [Fun (ex_page 0 ''GET'' ''/a''), Obj True]) =
     Inr [Fun (ex_page 0 ''GET'' ''/a''), Obj True] \<and>
   load ex_env (Obj True) = Inr (Obj True) \<and>
   initialized_page (Obj True) \<and>
   attach ex_env (Some \<lparr>opt_pages = Some (PagesArray [Fun (ex_page 0 ''GET'' ''/a''), Obj True]),
                         opt_404 = None\<rparr>) = Inl (InvalidPageType ''object'') \<and>
   attach ex_env (Some \<lparr>opt_pages = Some (PagesArray
                           [Fun ((ex_page 0 ''GET'' ''/a'')\<lparr>instanceof_Page := True\<rparr>)]),
                         opt_404 = None\<rparr>) = Inl AlreadyInitialized \<and>
   attach ex_env (Some \<lparr>opt_pages = Some (PagesArray [Str ''./pages/home'']), opt_404 = None\<rparr>) =
     Inl (ModuleNotFound ''./pages/home'') \<and>
   attach ex_env (Some \<lparr>opt_pages = Some (PagesPath ''./pages''), opt_404 = None\<rparr>) =
     Inl ReaddirFailed \<and>
   list_all (\<lambda>p. \<not> instanceof_Page p \<and> page_router p \<noteq> None) (pages ex_dispatcher)"
proof -
  let ?os = "Some \<lparr>opt_pages = Some (PagesArray [Fun (ex_page 0 ''GET'' ''/a''), Fun (ex_page 1 ''get'' ''/a''),
                                          Fun (ex_page 2 ''POST'' ''/a'')]), opt_404 = None\<rparr>"
  have a: "attach ex_env ?os = Inr ex_dispatcher"
    by (rule ex_attach)
  from attach_fails_fast
         [of ex_env None True "''x''" "ex_page 0 ''GET'' ''/a''"
             "PagesArray [Fun (ex_page 0 ''GET'' ''/a''), Obj True]"
             "[Fun (ex_page 0 ''GET'' ''/a''), Obj True]" "Obj True" "Obj True" ?os ex_dispatcher]
  have "\<forall>p\<in>set (pages ex_dispatcher). \<not> instanceof_Page p \<and> page_router p \<noteq> None"
    using a by blast
  then show ?thesis
    by (simp add: list_all_iff)
       (simp add: attach_def list_pages_def map_page_def load_def initialized_page_def ex_env_def
          ex_page_def)
qed


section \<open>Letter case of the method\<close>

lemma filter_cb_lower:
  "toLowerCase (req_method r1) = toLowerCase (req_method r2) \<Longrightarrow> filter_cb r1 u p = filter_cb r2 u p"
  by (simp add: filter_cb_def split: option.splits)

lemma pages_filter_lower:
  "toLowerCase (req_method r1) = toLowerCase (req_method r2) \<Longrightarrow>
   pages_filter r1 u ps = pages_filter r2 u ps"
  by (induction ps) (simp_all add: filter_cb_lower [of r1 r2] split: prod.splits sum.splits)

lemma middlware_pages: "pages (after (middlware d now req res)) = pages d"
  by (cases "exp_get (routes d) now (route_id req)")
     (simp add: middlware_def dispatch_def Let_def split: option.splits prod.splits sum.splits list.splits)

lemma route_id_method_inj:
  "url r1 = url r2 \<Longrightarrow> (route_id r1 = route_id r2) = (req_method r1 = req_method r2)"
  by (simp add: route_id_def)

lemma instance_key_method_inj:
  "url r1 = url r2 \<Longrightarrow> sessionID r1 = sessionID r2 \<Longrightarrow>
   (instance_key r1 = instance_key r2) = (req_method r1 = req_method r2)"
  by (simp add: instance_key_def route_id_def)

lemma routes_after_match_other:
  assumes miss: "fst (exp_get (routes d) now (route_id req)) = None"
    and scan: "pages_filter req (url_parse (url req)) (pages d) = (Inr (P # rest), tests)"
    and r: "page_router P = Some r"
    and k: "k \<noteq> route_id req"
  shows "cache (routes (after (middlware d now req res))) k = cache (routes d) k"
  using assms
  by (simp add: middlware_miss_match dispatch_def Let_def exp_set_def exp_get_other_cache)

lemma instances_after_dispatch_other:
  "k \<noteq> instance_key req \<Longrightarrow>
   cache (instances (after (middlware d now req res))) k = cache (instances d) k"
  by (cases "exp_get (routes d) now (route_id req)")
     (simp add: middlware_def dispatch_def Let_def exp_set_def
           split: option.splits prod.splits sum.splits list.splits)

lemma exp_get_absent: "cache m k = None \<Longrightarrow> fst (exp_get m now k) = None"
  by (simp add: exp_get_def)

text \<open>
  C10. Two requests that differ in the letter case of the method only (same URL, same
  session) are matched alike, since the scan lower-cases both methods: the filter
  keeps the same pages with the same router calls. The route id and the instance key
  carry the method as it came, so both differ. With neither route cached, the first
  request is scanned and stored under its route id, the second misses the cache, is
  scanned again and stored under its own, and afterwards the route cache holds both
  entries for the same page and the instance map both instances.
\<close>

theorem method_case_splits_cache:
  assumes diff: "req_method r1 \<noteq> req_method r2"
    and low: "toLowerCase (req_method r1) = toLowerCase (req_method r2)"
    and u: "url r1 = url r2"
    and s: "sessionID r1 = sessionID r2"
    and fresh1: "cache (routes d) (route_id r1) = None"
    and fresh2: "cache (routes d) (route_id r2) = None"
    and scan: "pages_filter r1 (url_parse (url r1)) (pages d) = (Inr (P # rest), tests)"
  shows
    "pages_filter r2 (url_parse (url r2)) (pages d) = (Inr (P # rest), tests) \<and>
     route_id r1 \<noteq> route_id r2 \<and>
     instance_key r1 \<noteq> instance_key r2 \<and>
     events (middlware d now r1 res) =
       tests @ [Exec (pid P), RoutesSet (route_id r1), New (pid P), InstancesSet (instance_key r1)] \<and>
     events (middlware (after (middlware d now r1 res)) later r2 res') =
       tests @ [Exec (pid P), RoutesSet (route_id r2), New (pid P), InstancesSet (instance_key r2)] \<and>
     (\<exists>c. cache (routes (after (middlware (after (middlware d now r1 res)) later r2 res')))
             (route_id r1) = Some \<lparr>val = c, seen = now\<rparr> \<and>
          cache (routes (after (middlware (after (middlware d now r1 res)) later r2 res')))
             (route_id r2) = Some \<lparr>val = c, seen = later\<rparr> \<and>
          Page c = P) \<and>
     (\<exists>i1 i2. cache (instances (after (middlware (after (middlware d now r1 res)) later r2 res')))
             (instance_key r1) = Some \<lparr>val = i1, seen = now\<rparr> \<and>
          cache (instances (after (middlware (after (middlware d now r1 res)) later r2 res')))
             (instance_key r2) = Some \<lparr>val = i2, seen = later\<rparr> \<and>
          made_by i1 = P \<and> made_by i2 = P)"
proof -
  let ?u = "url_parse (url r1)"
  let ?run1 = "middlware d now r1 res"
  let ?d1 = "after ?run1"
  let ?run2 = "middlware ?d1 later r2 res'"
  have id: "route_id r1 \<noteq> route_id r2"
    using diff by (simp add: route_id_method_inj [OF u])
  have key: "instance_key r1 \<noteq> instance_key r2"
    using diff by (simp add: instance_key_method_inj [OF u s])
  have scan2: "pages_filter r2 (url_parse (url r2)) (pages d) = (Inr (P # rest), tests)"
    using scan pages_filter_lower [OF low, of ?u "pages d"] u by simp
  from kept_has_router [OF scan, of P] obtain r where r: "page_router P = Some r"
    by auto
  have miss1: "fst (exp_get (routes d) now (route_id r1)) = None"
    using fresh1 by (rule exp_get_absent)
  note m1 = match_run [OF miss1 scan r, of res]
  have "cache (routes ?d1) (route_id r2) = None"
    using routes_after_match_other [OF miss1 scan r, of "route_id r2" res] id fresh2 by simp
  then have miss2: "fst (exp_get (routes ?d1) later (route_id r2)) = None"
    by (rule exp_get_absent)
  have scan2': "pages_filter r2 (url_parse (url r2)) (pages ?d1) = (Inr (P # rest), tests)"
    using scan2 by (simp add: middlware_pages)
  note m2 = match_run [OF miss2 scan2' r, of res']
  have c1: "cache (routes (after ?run2)) (route_id r1) =
        Some \<lparr>val = \<lparr>Page = P, params = exec r ?u\<rparr>, seen = now\<rparr>"
    using routes_after_match_other [OF miss2 scan2' r, of "route_id r1" res'] id m1(3) by simp
  have c2: "cache (routes (after ?run2)) (route_id r2) =
        Some \<lparr>val = \<lparr>Page = P, params = exec r ?u\<rparr>, seen = later\<rparr>"
    using m2(3) u by simp
  have i1: "cache (instances (after ?run2)) (instance_key r1) =
        Some \<lparr>val = on_error (new_page P r1 (exec r ?u)) (Fivehundered r1), seen = now\<rparr>"
    using instances_after_dispatch_other [of "instance_key r1" r2 ?d1 later res'] key m1(4) by simp
  have i2: "cache (instances (after ?run2)) (instance_key r2) =
        Some \<lparr>val = on_error (new_page P r2 (exec r (url_parse (url r2)))) (Fivehundered r2),
              seen = later\<rparr>"
    by (rule m2(4))
  have "\<exists>c. cache (routes (after ?run2)) (route_id r1) = Some \<lparr>val = c, seen = now\<rparr> \<and>
          cache (routes (after ?run2)) (route_id r2) = Some \<lparr>val = c, seen = later\<rparr> \<and> Page c = P"
    using c1 c2 by simp
  moreover have "\<exists>i1 i2. cache (instances (after ?run2)) (instance_key r1) = Some \<lparr>val = i1, seen = now\<rparr> \<and>
          cache (instances (after ?run2)) (instance_key r2) = Some \<lparr>val = i2, seen = later\<rparr> \<and>
          made_by i1 = P \<and> made_by i2 = P"
    using i1 i2 by (simp add: on_error_def new_page_def)
  ultimately show ?thesis
    using scan2 id key m1(1) m2(1) by simp
qed

theorem method_case_splits_cache_witness:
  "toLowerCase ''GET'' = toLowerCase ''get'' \<and>
   pages_filter (ex_request ''GET'' ''/a'' (JStr ''s'')) (url_parse ''/a'') (pages ex_dispatcher) =
     (Inr [ex_routed 0 ''GET'' ''/a'', ex_routed 1 ''get'' ''/a''], [Test 0, Test 1]) \<and>
   pages_filter (ex_request ''get'' ''/a'' (JStr ''s'')) (url_parse ''/a'') (pages ex_dispatcher) =
     (Inr [ex_routed 0 ''GET'' ''/a'', ex_routed 1 ''get'' ''/a''], [Test 0, Test 1]) \<and>
   route_id (ex_request ''GET'' ''/a'' (JStr ''s'')) = ''GET@/a'' \<and>
   route_id (ex_request ''get'' ''/a'' (JStr ''s'')) = ''get@/a'' \<and>
   events (middlware (after (middlware ex_dispatcher 0 (ex_request ''GET'' ''/a'' (JStr ''s'')) ex_response))
             5 (ex_request ''get'' ''/a'' (JStr ''s'')) ex_response) =
     [Test 0, Test 1, Exec 0, RoutesSet ''get@/a'', New 0, InstancesSet ''s:get@/a'']"
proof -
  let ?r1 = "ex_request ''GET'' ''/a'' (JStr ''s'')"
  let ?r2 = "ex_request ''get'' ''/a'' (JStr ''s'')"
  have low: "toLowerCase (req_method ?r1) = toLowerCase (req_method ?r2)"
    by (simp add: ex_request_def toLowerCase_def lower_char_def)
  have diff: "req_method ?r1 \<noteq> req_method ?r2" and u: "url ?r1 = url ?r2"
    and s: "sessionID ?r1 = sessionID ?r2"
    by (simp_all add: ex_request_def)
  have ids: "route_id ?r1 = ''GET@/a''" "route_id ?r2 = ''get@/a''"
    "instance_key ?r2 = ''s:get@/a''"
    by (simp_all add: instance_key_def route_id_def url_parse_def unset_if_empty_def pathname_text_def
          ex_request_def)
  have fresh: "cache (routes ex_dispatcher) (route_id ?r1) = None"
    "cache (routes ex_dispatcher) (route_id ?r2) = None"
    by (simp_all add: ex_dispatcher_def Expirable_def)
  have scan: "pages_filter ?r1 (url_parse (url ?r1)) (pages ex_dispatcher) =
     (Inr (ex_routed 0 ''GET'' ''/a'' # [ex_routed 1 ''get'' ''/a'']), [Test 0, Test 1])"
    by (simp add: run_defs ex_defs)
  note t = method_case_splits_cache [OF diff low u s fresh scan, of 0 ex_response 5 ex_response]
  have url1: "url ?r1 = ''/a''" "url ?r2 = ''/a''"
    by (simp_all add: ex_request_def)
  have p: "pid (ex_routed 0 ''GET'' ''/a'') = 0"
    by (simp add: ex_routed_def ex_page_def)
  have l: "toLowerCase ''GET'' = toLowerCase ''get''"
    by (simp add: toLowerCase_def lower_char_def)
  from t scan show ?thesis
    by (simp add: ids url1 p l del: One_nat_def)
qed


end
